theory Spec2Isabelle
  imports Complex_Main "HOL-Library.Multiset"
begin

section \<open>Desktop port: Point, Edge and Ring\<close>

text \<open>
  The desktop port (C++) stores coordinates as \<^verbatim>\<open>int\<close>. They are modelled as
  mathematical integers: signed overflow is undefined behaviour in C++, so every
  statement below is about runs in which no intermediate value leaves the range of
  its machine type. Division of \<^verbatim>\<open>int\<close> truncates towards zero.
\<close>

definition tdiv :: "int \<Rightarrow> int \<Rightarrow> int" where
  "tdiv a b = sgn a * sgn b * (\<bar>a\<bar> div \<bar>b\<bar>)"

record Point =
  X :: int
  Y :: int

definition mkPoint :: "int \<Rightarrow> int \<Rightarrow> Point" where
  "mkPoint x y = \<lparr>X = x, Y = y\<rparr>"

definition Point_add :: "Point \<Rightarrow> Point \<Rightarrow> Point" where
  "Point_add p q = mkPoint (X p + X q) (Y p + Y q)"

definition Point_sub :: "Point \<Rightarrow> Point \<Rightarrow> Point" where
  "Point_sub p q = mkPoint (X p - X q) (Y p - Y q)"

definition Point_mul :: "Point \<Rightarrow> int \<Rightarrow> Point" where
  "Point_mul p s = mkPoint (X p * s) (Y p * s)"

definition Point_div :: "Point \<Rightarrow> int \<Rightarrow> Point" where
  "Point_div p s = mkPoint (tdiv (X p) s) (tdiv (Y p) s)"

definition Dot :: "Point \<Rightarrow> Point \<Rightarrow> int" where
  "Dot p q = X p * X q + Y p * Y q"

definition Cross :: "Point \<Rightarrow> Point \<Rightarrow> int" where
  "Cross p q = X p * Y q - Y p * X q"

definition LengthSquared :: "Point \<Rightarrow> int" where
  "LengthSquared p = Dot p p"

definition DistanceSquared :: "Point \<Rightarrow> Point \<Rightarrow> int" where
  "DistanceSquared p q = LengthSquared (Point_sub q p)"

type_synonym Ring = "Point list"

type_synonym Polygon = "Ring list"

text \<open>
  \<^verbatim>\<open>Edge\<close> is an iterator over the edges of a ring. It starts at the closing edge
  (from \<^verbatim>\<open>ring.back()\<close> to \<^verbatim>\<open>ring.front()\<close>) with order 0; \<^verbatim>\<open>operator++\<close>
  adds the squared length of the edge just left to the order and moves on to the
  next vertex. The iteration is unfolded into the list of the states in which the
  iterator is valid. The constructor requires a non-empty ring (\<^verbatim>\<open>ring.back()\<close>
  of an empty vector is undefined); \<open>edges []\<close> is the empty list here and the
  statements about the desktop port assume rings with at least one vertex.
\<close>

record Edge =
  Start :: Point
  End :: Point
  Order :: int

definition Vector :: "Edge \<Rightarrow> Point" where
  "Vector e = Point_sub (End e) (Start e)"

fun Edge_run :: "Point \<Rightarrow> int \<Rightarrow> Point list \<Rightarrow> Edge list" where
  "Edge_run s ord [] = []"
| "Edge_run s ord (p # ps) =
     \<lparr>Start = s, End = p, Order = ord\<rparr>
       # Edge_run p (ord + Dot (Point_sub p s) (Point_sub p s)) ps"

fun Edge_final :: "Point \<Rightarrow> int \<Rightarrow> Point list \<Rightarrow> int" where
  "Edge_final s ord [] = ord"
| "Edge_final s ord (p # ps) = Edge_final p (ord + Dot (Point_sub p s) (Point_sub p s)) ps"

definition edges :: "Ring \<Rightarrow> Edge list" where
  "edges ring = (if ring = [] then [] else Edge_run (last ring) 0 ring)"

definition MaxOrder :: "Ring \<Rightarrow> int" where
  "MaxOrder ring = (if ring = [] then 0 else Edge_final (last ring) 0 ring)"

text \<open>
  \<^verbatim>\<open>Ring::Area\<close> sums \<^verbatim>\<open>Start().Cross(End())\<close> over the edges in a 64-bit
  integer and returns \<^verbatim>\<open>0.5f * area\<close>. The float is modelled by the rational it
  stands for (exact while the sum is below \<open>2^24\<close> in absolute value).
\<close>

definition Area2 :: "Ring \<Rightarrow> int" where
  "Area2 ring = sum_list (map (\<lambda>e. Cross (Start e) (End e)) (edges ring))"

definition Area :: "Ring \<Rightarrow> rat" where
  "Area ring = (1 / 2) * of_int (Area2 ring)"

definition IsHole :: "Ring \<Rightarrow> bool" where
  "IsHole ring = (Area ring < 0)"

text \<open>\<^verbatim>\<open>Ring::Winding\<close>: the pair (winding number, border count).\<close>

definition Winding_step :: "Point \<Rightarrow> int \<times> int \<Rightarrow> Edge \<Rightarrow> int \<times> int" where
  "Winding_step point acc e =
     (let startsBelow = (Y (Start e) \<le> Y point);
          endsBelow = (Y (End e) \<le> Y point)
      in if startsBelow = endsBelow then acc
         else
           let cross = Cross (Vector e) (Point_sub point (Start e));
               w1 = fst acc + (if \<not> endsBelow \<and> cross > 0 then 1 else 0);
               w2 = w1 - (if endsBelow \<and> cross \<le> 0 then 1 else 0);
               b = snd acc + (if cross = 0 then 1 else 0)
           in (w2, b))"

definition Winding :: "Ring \<Rightarrow> Point \<Rightarrow> int \<times> int" where
  "Winding ring point = foldl (Winding_step point) (0, 0) (edges ring)"

text \<open>\<^verbatim>\<open>Ring::Contains(Point)\<close> returns \<^verbatim>\<open>Winding(point).first\<close> converted to bool.\<close>

definition Ring_Contains :: "Ring \<Rightarrow> Point \<Rightarrow> bool" where
  "Ring_Contains ring point = (fst (Winding ring point) \<noteq> 0)"

text \<open>\<^verbatim>\<open>Ring::Contains(const Ring &)\<close>, private, used by \<^verbatim>\<open>Polygon\<close>.\<close>

definition Ring_Contains_Ring :: "Ring \<Rightarrow> Ring \<Rightarrow> bool" where
  "Ring_Contains_Ring this ring =
     (let result = Winding this (hd ring)
      in fst result \<noteq> 0 \<and> (snd result = 0 \<or> Area this > Area ring))"

section \<open>Web port: rings as arrays of vertices with edge vectors\<close>

text \<open>
  The web port (JavaScript) stores a ring as a flat array with four numbers per
  vertex: \<^verbatim>\<open>x, y, dx, dy\<close>, where \<^verbatim>\<open>(dx, dy)\<close> is the vector to the next vertex.
  A ring is modelled as the list of these quadruples, a point as a pair. Numbers are
  modelled as rationals: sums, differences and products of the coordinates are exact
  in double precision for the coordinate ranges of a scene, and the outcome of
  comparing a quotient with 0 or 1 agrees with the exact quotient.
\<close>

type_synonym jpoint = "rat \<times> rat"

type_synonym jring = "(rat \<times> rat \<times> rat \<times> rat) list"

text \<open>\<^verbatim>\<open>expand(points)\<close>; its callers never pass an empty list of points.\<close>

fun expand_from :: "jpoint \<Rightarrow> jpoint \<Rightarrow> jpoint list \<Rightarrow> jring" where
  "expand_from first (sx, sy) [] = [(sx, sy, fst first - sx, snd first - sy)]"
| "expand_from first (sx, sy) ((ex, ey) # ps) =
     (sx, sy, ex - sx, ey - sy) # expand_from first (ex, ey) ps"

definition expand :: "jpoint list \<Rightarrow> jring" where
  "expand points = (case points of [] \<Rightarrow> [] | p # ps \<Rightarrow> expand_from p p ps)"

definition area :: "jring \<Rightarrow> rat" where
  "area ring = (1 / 2) * sum_list (map (\<lambda>(x, y, dx, dy). x * dy - y * dx) ring)"

definition isHole :: "jring \<Rightarrow> bool" where
  "isHole ring = (area ring < 0)"

definition windingNumber_step :: "rat \<Rightarrow> rat \<Rightarrow> int \<times> int \<Rightarrow> rat \<times> rat \<times> rat \<times> rat \<Rightarrow> int \<times> int" where
  "windingNumber_step px py acc e =
     (case e of (x, y, dx, dy) \<Rightarrow>
        if dy = 0 then
          (if y = py
           then (fst acc, snd acc + (if x + min 0 dx \<le> px \<and> px \<le> x + max 0 dx then 1 else 0))
           else acc)
        else
          let startsBelow = (y \<le> py);
              endsBelow = (y + dy \<le> py)
          in if startsBelow = endsBelow then acc
             else
               let cross = (px - x) * dy - (py - y) * dx;
                   w1 = fst acc + (if \<not> endsBelow \<and> cross \<le> 0 then 1 else 0);
                   w2 = w1 - (if endsBelow \<and> cross > 0 then 1 else 0);
                   b = snd acc + (if cross = 0 then 1 else 0)
               in (w2, b))"

definition windingNumber :: "jring \<Rightarrow> rat \<Rightarrow> rat \<Rightarrow> int \<times> int" where
  "windingNumber ring px py = foldl (windingNumber_step px py) (0, 0) ring"

text \<open>\<^verbatim>\<open>contains(ring, point)\<close> returns \<^verbatim>\<open>result.winding || result.border\<close>.\<close>

definition contains :: "jring \<Rightarrow> jpoint \<Rightarrow> bool" where
  "contains ring point =
     (let result = windingNumber ring (fst point) (snd point)
      in fst result \<noteq> 0 \<or> snd result \<noteq> 0)"

definition ringContainsRing :: "jring \<Rightarrow> jring \<Rightarrow> bool" where
  "ringContainsRing ring other =
     (case hd other of (ox, oy, odx, ody) \<Rightarrow>
        let result = windingNumber ring ox oy
        in fst result \<noteq> 0 \<and> (snd result = 0 \<or> area ring > area other))"

section \<open>Polygon queries\<close>

subsection \<open>Desktop port\<close>

text \<open>\<^verbatim>\<open>Polygon::Contains\<close>: the loop returns true at the first ring that reports the
  point on its border; otherwise the winding numbers are added up.\<close>

fun Polygon_Contains_loop :: "int \<Rightarrow> Polygon \<Rightarrow> Point \<Rightarrow> bool" where
  "Polygon_Contains_loop winding [] point = (winding \<noteq> 0)"
| "Polygon_Contains_loop winding (part # parts) point =
     (let result = Winding part point
      in if snd result \<noteq> 0 then True
         else Polygon_Contains_loop (winding + fst result) parts point)"

definition Polygon_Contains :: "Polygon \<Rightarrow> Point \<Rightarrow> bool" where
  "Polygon_Contains this point = Polygon_Contains_loop 0 this point"

text \<open>\<^verbatim>\<open>Polygon::Intersects\<close>: the test made for one edge \<open>p\<close> of a ring against the
  segment from \<open>start\<close> to \<open>end\<close>.\<close>

definition Intersects_edge :: "Point \<Rightarrow> Point \<Rightarrow> Edge \<Rightarrow> bool" where
  "Intersects_edge start end p =
     (let qV = Point_sub end start;
          cross = Cross (Vector p) qV
      in if cross = 0 then False
         else
           let d = Point_sub start (Start p);
               pT = Cross d qV;
               qT = Cross d (Vector p);
               cross' = (if cross < 0 then - cross else cross);
               pT' = (if cross < 0 then - pT else pT);
               qT' = (if cross < 0 then - qT else qT)
           in qT' > 0 \<and> qT' < cross' \<and> pT' \<ge> 0 \<and> pT' \<le> cross')"

definition Intersects :: "Polygon \<Rightarrow> Point \<Rightarrow> Point \<Rightarrow> bool" where
  "Intersects this start end =
     list_ex (\<lambda>part. list_ex (Intersects_edge start end) (edges part)) this"

subsection \<open>Web port\<close>

fun Polygon_contains_loop :: "int \<Rightarrow> jring list \<Rightarrow> jpoint \<Rightarrow> bool" where
  "Polygon_contains_loop winding [] point = (winding \<noteq> 0)"
| "Polygon_contains_loop winding (ring # rings) point =
     (let result = windingNumber ring (fst point) (snd point)
      in if snd result \<noteq> 0 then True
         else Polygon_contains_loop (winding + fst result) rings point)"

definition Polygon_contains :: "jring list \<Rightarrow> jpoint \<Rightarrow> bool" where
  "Polygon_contains rings point = Polygon_contains_loop 0 rings point"

text \<open>\<^verbatim>\<open>Polygon.intersects\<close>. The body of the loop over the vertices of one ring
  is \<open>intersects_body\<close>: it is true when the body executes \<^verbatim>\<open>return true\<close> and
  false when it reaches a \<^verbatim>\<open>continue\<close> or its end. \<open>pCross\<close> is the cross product
  of the previous edge with the segment's vector, \<open>intersects_cross\<close> the one of
  the current edge, which the next round sees as \<open>pCross\<close>.\<close>

definition intersects_cross :: "jpoint \<Rightarrow> jpoint \<Rightarrow> rat \<times> rat \<times> rat \<times> rat \<Rightarrow> rat" where
  "intersects_cross start end q =
     (case q of (x, y, edx, edy) \<Rightarrow>
        edx * (snd end - snd start) - edy * (fst end - fst start))"

definition intersects_body :: "jpoint \<Rightarrow> jpoint \<Rightarrow> rat \<Rightarrow> rat \<times> rat \<times> rat \<times> rat \<Rightarrow> bool" where
  "intersects_body start end pCross q =
     (case q of (x, y, edx, edy) \<Rightarrow>
        let vx = fst end - fst start;
            vy = snd end - snd start;
            cross = edx * vy - edy * vx
        in if fst start = x \<and> snd start = y then pCross < 0 \<and> cross < 0
           else if fst end = x \<and> snd end = y then pCross > 0 \<and> cross > 0
           else if cross = 0 then False
           else
             let dx = fst start - x;
                 dy = snd start - y;
                 segT = (dx * edy - dy * edx) / cross;
                 edgeT = (dx * vy - dy * vx) / cross
             in if edgeT < 0 \<or> edgeT > 1 \<or> segT < 0 \<or> segT > 1 then False
                else if segT > 0 \<and> segT < 1 then True
                else edgeT \<noteq> 0 \<and> edgeT \<noteq> 1 \<and> ((segT = 0) = (cross < 0)))"

fun intersects_ring :: "jpoint \<Rightarrow> jpoint \<Rightarrow> rat \<Rightarrow> jring \<Rightarrow> bool" where
  "intersects_ring start end prev [] = False"
| "intersects_ring start end prev (q # rest) =
     (if intersects_body start end prev q then True
      else intersects_ring start end (intersects_cross start end q) rest)"

definition intersects_prev :: "jpoint \<Rightarrow> jpoint \<Rightarrow> jring \<Rightarrow> rat" where
  "intersects_prev start end ring =
     (case (hd ring, last ring) of ((x0, y0, dx0, dy0), (xl, yl, dxl, dyl)) \<Rightarrow>
        (x0 - xl) * (snd end - snd start) - (y0 - yl) * (fst end - fst start))"

definition intersects :: "jring list \<Rightarrow> jpoint \<Rightarrow> jpoint \<Rightarrow> bool" where
  "intersects rings start end =
     list_ex (\<lambda>ring. intersects_ring start end (intersects_prev start end ring) ring) rings"

section \<open>Flood fill\<close>

subsection \<open>Desktop port\<close>

text \<open>The first loop of \<^verbatim>\<open>Polygon::FloodFill\<close>: the state is
  \<^verbatim>\<open>(keepCount, smallestI)\<close>.\<close>

definition FloodFill_smallest_step ::
  "Polygon \<Rightarrow> rat list \<Rightarrow> Point \<Rightarrow> nat \<times> nat \<Rightarrow> nat \<Rightarrow> nat \<times> nat" where
  "FloodFill_smallest_step this areaV point st i =
     (if areaV ! i > 0 \<and> Ring_Contains (this ! i) point
         \<and> (fst st = 0 \<or> areaV ! i < areaV ! (snd st))
      then (1, i) else st)"

definition FloodFill_nested :: "Polygon \<Rightarrow> rat list \<Rightarrow> nat \<Rightarrow> bool" where
  "FloodFill_nested this areaV i =
     list_ex (\<lambda>j. areaV ! j < areaV ! i \<and> Ring_Contains (this ! j) (hd (this ! i)))
       [0 ..< length this]"

definition FloodFill :: "Polygon \<Rightarrow> Point \<Rightarrow> Polygon" where
  "FloodFill this point =
     (let areaV = map Area this;
          st = foldl (FloodFill_smallest_step this areaV point) (0, 0) [0 ..< length this]
      in if fst st = 0 then []
         else
           let smallestI = snd st;
               smallest = this ! smallestI;
               keep = (\<lambda>i. i = smallestI \<or>
                         (areaV ! i < 0 \<and> Ring_Contains_Ring smallest (this ! i)
                            \<and> \<not> FloodFill_nested this areaV i))
           in map (\<lambda>i. this ! i) (filter keep [0 ..< length this]))"

subsection \<open>Web port\<close>

definition floodFill_smallest_step ::
  "jring list \<Rightarrow> rat list \<Rightarrow> jpoint \<Rightarrow> int \<Rightarrow> nat \<Rightarrow> int" where
  "floodFill_smallest_step rings areas point smallestI i =
     (if areas ! i > 0 \<and> contains (rings ! i) point
         \<and> (smallestI < 0 \<or> areas ! i < areas ! nat smallestI)
      then int i else smallestI)"

definition floodFill_nested :: "jring list \<Rightarrow> rat list \<Rightarrow> nat \<Rightarrow> bool" where
  "floodFill_nested rings areas i =
     list_ex (\<lambda>j. areas ! j < areas ! i \<and> ringContainsRing (rings ! j) (rings ! i))
       [0 ..< length areas]"

definition floodFill :: "jring list \<Rightarrow> jpoint \<Rightarrow> jring list" where
  "floodFill rings point =
     (let areas = map area rings;
          smallestI = foldl (floodFill_smallest_step rings areas point) (- 1) [0 ..< length areas]
      in if smallestI < 0 then []
         else
           let smallest = rings ! nat smallestI
           in smallest #
              map (\<lambda>i. rings ! i)
                (filter (\<lambda>i. areas ! i < 0 \<and> ringContainsRing smallest (rings ! i)
                               \<and> \<not> floodFill_nested rings areas i)
                   [0 ..< length areas]))"

section \<open>Geometric notions used in the statements\<close>



text \<open>The point \<open>p\<close> lies on the closed segment from \<open>a\<close> to \<open>b\<close>.\<close>

definition on_segment :: "jpoint \<Rightarrow> jpoint \<Rightarrow> jpoint \<Rightarrow> bool" where
  "on_segment p a b \<longleftrightarrow>
     (fst b - fst a) * (snd p - snd a) - (snd b - snd a) * (fst p - fst a) = 0 \<and>
     min (fst a) (fst b) \<le> fst p \<and> fst p \<le> max (fst a) (fst b) \<and>
     min (snd a) (snd b) \<le> snd p \<and> snd p \<le> max (snd a) (snd b)"


section \<open>Desktop port: the union of a ring into a polygon\<close>

text \<open>
  \<^verbatim>\<open>Polygon::Add\<close>. An \<^verbatim>\<open>Intersection\<close> is a point where an edge of a part of the
  polygon P meets an edge of the new ring Q; \<open>i_order\<close> places it along one ring and
  \<open>i_index\<close> holds, in the first stage, its order along Q and, in the second, the
  index of its vertex in the amplified list. A \<^verbatim>\<open>Vertex\<close> of the amplified list
  carries a link: an index into the same list, -1 for none, -2 for a link that a
  trace has used.
\<close>

record Intersection =
  i_point :: Point
  i_order :: int
  i_index :: int
  i_entering :: bool

record Vertex =
  v_point :: Point
  v_link :: int

definition mkIntersection :: "Point \<Rightarrow> int \<Rightarrow> int \<Rightarrow> bool \<Rightarrow> Intersection" where
  "mkIntersection p ord idx ent = \<lparr>i_point = p, i_order = ord, i_index = idx, i_entering = ent\<rparr>"

definition mkVertex :: "Point \<Rightarrow> int \<Rightarrow> Vertex" where
  "mkVertex p l = \<lparr>v_point = p, v_link = l\<rparr>"

text \<open>The order the iterator reports after \<^verbatim>\<open>operator++\<close> has left the edge.\<close>

definition Edge_next_order :: "Edge \<Rightarrow> int" where
  "Edge_next_order e = Order e + Dot (Vector e) (Vector e)"

text \<open>
  The body of the two nested loops over the edges \<open>p\<close> of a part and \<open>q\<close> of the
  ring: the intersection recorded for the pair, if any (\<open>isHoleQ\<close> is the
  local \<^verbatim>\<open>isHole\<close>). The two products with
  \<^verbatim>\<open>pT\<close> and \<^verbatim>\<open>qT\<close> are 64-bit in the source and divided with truncation.
\<close>

definition Add_intersection ::
  "bool \<Rightarrow> int \<Rightarrow> int \<Rightarrow> Edge \<Rightarrow> Edge \<Rightarrow> Intersection list" where
  "Add_intersection isHoleQ pMaxOrder qMaxOrder p q =
     (let cross = Cross (Vector p) (Vector q)
      in if cross = 0 then []
         else
           let d = Point_sub (Start q) (Start p);
               pT = Cross d (Vector q);
               qT = Cross d (Vector p);
               entering = ((cross > 0) \<noteq> isHoleQ);
               cross' = (if cross < 0 then - cross else cross);
               pT' = (if cross < 0 then - pT else pT);
               qT' = (if cross < 0 then - qT else qT)
           in if qT' \<ge> 0 \<and> qT' \<le> cross' \<and> pT' \<ge> 0 \<and> pT' \<le> cross' then
                let dP = mkPoint (tdiv (pT' * X (Vector p)) cross') (tdiv (pT' * Y (Vector p)) cross');
                    dQ = mkPoint (tdiv (qT' * X (Vector q)) cross') (tdiv (qT' * Y (Vector q)) cross')
                in [mkIntersection (Point_add (Start p) dP)
                      ((Order p + Dot dP dP) mod pMaxOrder)
                      ((Order q + Dot dQ dQ) mod qMaxOrder)
                      entering]
              else [])"

definition Add_intersections :: "bool \<Rightarrow> Ring \<Rightarrow> Ring \<Rightarrow> Intersection list" where
  "Add_intersections isHoleQ part ring =
     concat (map (\<lambda>p. concat (map (\<lambda>q.
        Add_intersection isHoleQ (MaxOrder part) (MaxOrder ring) p q) (edges ring))) (edges part))"

text \<open>
  \<^verbatim>\<open>RemoveDoubles\<close>: of every run of intersections with the same order the first is
  kept when all of the run have the same entering flag, and the whole run is dropped
  otherwise.
\<close>

function RemoveDoubles :: "Intersection list \<Rightarrow> Intersection list" where
  "RemoveDoubles [] = []"
| "RemoveDoubles (x # xs) =
     (let run = takeWhile (\<lambda>y. i_order y = i_order x) xs;
          entering = length (filter i_entering (x # run));
          total = 1 + length run
      in (if entering = 0 \<or> entering = total then [x] else [])
         @ RemoveDoubles (dropWhile (\<lambda>y. i_order y = i_order x) xs))"
  by pat_completeness auto
termination
  by (relation "measure length") (auto simp: length_dropWhile_le le_imp_less_Suc)

text \<open>
  \<^verbatim>\<open>Sort\<close> calls \<^verbatim>\<open>std::sort\<close>, which is not part of the repository and leaves the
  order of equal elements open. It is a parameter \<open>srt\<close> of the model; the statements
  assume of it what the C++ standard promises.
\<close>

definition sorts :: "(Intersection list \<Rightarrow> Intersection list) \<Rightarrow> bool" where
  "sorts srt \<longleftrightarrow> (\<forall>xs. sorted (map i_order (srt xs)) \<and> mset (srt xs) = mset xs)"

definition survivors ::
  "(Intersection list \<Rightarrow> Intersection list) \<Rightarrow> bool \<Rightarrow> Ring \<Rightarrow> Ring \<Rightarrow> Intersection list" where
  "survivors srt isHoleQ part ring = RemoveDoubles (srt (Add_intersections isHoleQ part ring))"

text \<open>
  The amplified copy of a part of P. The state of the walk is the rest of the
  intersection list from the iterator \<^verbatim>\<open>it\<close> on (the sentinel included),
  \<^verbatim>\<open>wasEntering\<close>, \<^verbatim>\<open>qIntersections\<close> and \<^verbatim>\<open>amplified\<close>.
\<close>

fun amplify_P_inner ::
  "int \<Rightarrow> Intersection list \<Rightarrow> bool \<Rightarrow> Intersection list \<Rightarrow> Vertex list
     \<Rightarrow> Intersection list \<times> bool \<times> Intersection list \<times> Vertex list" where
  "amplify_P_inner limit [] was qI amp = ([], was, qI, amp)"
| "amplify_P_inner limit (x # xs) was qI amp =
     (if i_order x < limit then
        (if i_entering x = was then amplify_P_inner limit xs was qI amp
         else amplify_P_inner limit xs (i_entering x)
                (qI @ [mkIntersection (i_point x) (i_index x) (int (length amp)) (i_entering x)])
                (amp @ [mkVertex (i_point x) (- 1)]))
      else (x # xs, was, qI, amp))"

fun amplify_P ::
  "Edge list \<Rightarrow> Intersection list \<Rightarrow> bool \<Rightarrow> Intersection list \<Rightarrow> Vertex list
     \<Rightarrow> Intersection list \<times> Vertex list" where
  "amplify_P [] it was qI amp = (qI, amp)"
| "amplify_P (p # ps) it was qI amp =
     (let amp1 = (if (case it of [] \<Rightarrow> True | x # xs \<Rightarrow> i_order x \<noteq> Order p)
                  then amp @ [mkVertex (Start p) (- 1)] else amp)
      in case amplify_P_inner (Edge_next_order p) it was qI amp1 of
           (it', was', qI', amp') \<Rightarrow> amplify_P ps it' was' qI' amp')"

text \<open>The amplified copy of Q, with the links in both directions and the list of
  the indices at which a trace may start.\<close>

fun amplify_Q_inner ::
  "int \<Rightarrow> Intersection list \<Rightarrow> nat list \<Rightarrow> Vertex list
     \<Rightarrow> Intersection list \<times> nat list \<times> Vertex list" where
  "amplify_Q_inner limit [] ents amp = ([], ents, amp)"
| "amplify_Q_inner limit (x # xs) ents amp =
     (if i_order x < limit then
        (if i_entering x
         then amplify_Q_inner limit xs (ents @ [length amp])
                (amp @ [mkVertex (i_point x) (i_index x)])
         else amplify_Q_inner limit xs ents
                ((amp [nat (i_index x) := (amp ! nat (i_index x))\<lparr>v_link := int (length amp)\<rparr>])
                   @ [mkVertex (i_point x) (- 1)]))
      else (x # xs, ents, amp))"

fun amplify_Q ::
  "Edge list \<Rightarrow> Intersection list \<Rightarrow> nat list \<Rightarrow> Vertex list \<Rightarrow> nat list \<times> Vertex list" where
  "amplify_Q [] it ents amp = (ents, amp)"
| "amplify_Q (q # qs) it ents amp =
     (let amp1 = (if (case it of [] \<Rightarrow> True | x # xs \<Rightarrow> i_order x \<noteq> Order q)
                  then amp @ [mkVertex (Start q) (- 1)] else amp)
      in case amplify_Q_inner (Edge_next_order q) it ents amp1 of
           (it', ents', amp') \<Rightarrow> amplify_Q qs it' ents' amp')"

text \<open>
  The state of the loop over the parts of P: \<^verbatim>\<open>result\<close>, \<^verbatim>\<open>qIntersections\<close>,
  \<^verbatim>\<open>amplified\<close> and \<^verbatim>\<open>smallestContainer\<close> (a null pointer is \<open>None\<close>).
\<close>

record Add_state =
  as_result :: Polygon
  as_qIntersections :: "Intersection list"
  as_amplified :: "Vertex list"
  as_smallestContainer :: "Ring option"

definition Add_part ::
  "(Intersection list \<Rightarrow> Intersection list) \<Rightarrow> Ring \<Rightarrow> Add_state \<Rightarrow> Ring \<Rightarrow> Add_state" where
  "Add_part srt ring st part =
     (let pIntersections = survivors srt (IsHole ring) part ring
      in if pIntersections = [] then
           (if \<not> Ring_Contains_Ring ring part then
              st\<lparr>as_result := as_result st @ [part],
                 as_smallestContainer :=
                   (if Ring_Contains_Ring part ring
                       \<and> (case as_smallestContainer st of None \<Rightarrow> True
                           | Some c \<Rightarrow> Ring_Contains_Ring c part)
                    then Some part else as_smallestContainer st)\<rparr>
            else st)
         else
           let pIndex = length (as_amplified st);
               wasEntering = i_entering (last pIntersections);
               its = pIntersections @ [mkIntersection (mkPoint 0 0) (MaxOrder part) 0 False]
           in case amplify_P (edges part) its wasEntering (as_qIntersections st) (as_amplified st) of
                (qI, amp) \<Rightarrow>
                  st\<lparr>as_qIntersections := qI,
                     as_amplified := amp @ [mkVertex (v_point (amp ! pIndex)) (int pIndex)]\<rparr>)"

lemma links_update_less:
  assumes "j < length amp" "v_link (amp ! j) \<ge> 0"
  shows "length (filter (\<lambda>v. v_link v \<ge> 0) (amp [j := (amp ! j)\<lparr>v_link := - 2\<rparr>]))
       < length (filter (\<lambda>v. v_link v \<ge> 0) amp)"
proof -
  define w where "w = (amp ! j)\<lparr>v_link := - 2\<rparr>"
  have amp: "amp = take j amp @ (amp ! j) # drop (Suc j) amp"
    using assms(1) by (simp add: id_take_nth_drop)
  have upd: "amp [j := w] = take j amp @ w # drop (Suc j) amp"
    using assms(1) by (simp add: upd_conv_take_nth_drop)
  have "length (filter (\<lambda>v. v_link v \<ge> 0) (amp [j := w]))
      = length (filter (\<lambda>v. v_link v \<ge> 0) (take j amp))
        + length (filter (\<lambda>v. v_link v \<ge> 0) (drop (Suc j) amp))"
    unfolding upd by (simp add: w_def)
  moreover have "length (filter (\<lambda>v. v_link v \<ge> 0) (take j amp @ (amp ! j) # drop (Suc j) amp))
      = length (filter (\<lambda>v. v_link v \<ge> 0) (take j amp))
        + Suc (length (filter (\<lambda>v. v_link v \<ge> 0) (drop (Suc j) amp)))"
    using assms(2) by simp
  ultimately show ?thesis
    unfolding w_def using amp by simp
qed

text \<open>
  One output ring is traced through the amplified list, starting at \<open>index\<close>. The
  function is the body of the \<^verbatim>\<open>do ... while(j != index)\<close> loop; an index outside
  the list (undefined behaviour in the source) ends the trace with \<open>None\<close>. A step
  either uses up a link or moves one vertex on, which bounds the loop.
\<close>

function trace :: "nat \<Rightarrow> Vertex list \<Rightarrow> nat \<Rightarrow> Ring \<Rightarrow> (Ring \<times> Vertex list) option" where
  "trace index amp j out =
     (if j \<ge> length amp then None
      else if v_link (amp ! j) \<ge> 0 then
        (let j' = nat (v_link (amp ! j));
             amp' = amp [j := (amp ! j)\<lparr>v_link := - 2\<rparr>]
         in if j' = index then Some (out, amp') else trace index amp' j' out)
      else
        (let out' = out @ [v_point (amp ! j)];
             j' = j + 1
         in if j' = index then Some (out', amp) else trace index amp j' out'))"
  by pat_completeness auto
termination
  apply (relation "measures [\<lambda>(index, amp, j, out). length (filter (\<lambda>v. v_link v \<ge> 0) amp),
                             \<lambda>(index, amp, j, out). length amp - j]")
    apply simp
  subgoal for index amp j out x xa
    using links_update_less [of j amp] by simp
  subgoal by auto
  done

text \<open>The loop over \<^verbatim>\<open>enteringIndices\<close>: a traced ring with less than three
  vertices is dropped.\<close>

fun Add_traces :: "nat list \<Rightarrow> Polygon \<Rightarrow> Vertex list \<Rightarrow> Polygon option" where
  "Add_traces [] result amp = Some result"
| "Add_traces (index # rest) result amp =
     (if index \<ge> length amp then None
      else if v_link (amp ! index) < 0 then Add_traces rest result amp
      else case trace index amp index [] of
             None \<Rightarrow> None
           | Some (out, amp') \<Rightarrow>
               Add_traces rest (if length out < 3 then result else result @ [out]) amp')"

definition Add_init :: Add_state where
  "Add_init = \<lparr>as_result = [], as_qIntersections = [], as_amplified = [],
                as_smallestContainer = None\<rparr>"

text \<open>
  \<^verbatim>\<open>Polygon::Add\<close>. The edge iterator needs a ring with a vertex, so an empty ring or
  part ends in \<open>None\<close>, as does a trace that leaves the amplified list.
\<close>

definition Add ::
  "(Intersection list \<Rightarrow> Intersection list) \<Rightarrow> Polygon \<Rightarrow> Ring \<Rightarrow> Polygon option" where
  "Add srt this ring =
     (if ring = [] \<or> [] \<in> set this then None
      else
        let st = foldl (Add_part srt ring) Add_init this
        in if as_qIntersections st = [] then
             (let containerIsHole =
                    (case as_smallestContainer st of None \<Rightarrow> True | Some c \<Rightarrow> IsHole c)
              in Some (if containerIsHole \<noteq> IsHole ring
                       then as_result st @ [ring] else as_result st))
           else
             let qI = srt (as_qIntersections st);
                 qIndex = length (as_amplified st);
                 its = qI @ [mkIntersection (mkPoint 0 0) (MaxOrder ring) 0 False]
             in case amplify_Q (edges ring) its [] (as_amplified st) of
                  (enteringIndices, amp) \<Rightarrow>
                    Add_traces enteringIndices (as_result st)
                      (amp @ [mkVertex (v_point (amp ! qIndex)) (int qIndex)]))"





section \<open>Desktop port: pathfinding\<close>

text \<open>
  Lengths of paths are \<^verbatim>\<open>float\<close> values. Their type \<open>'f\<close> is left open: the model
  uses the operations the source uses on them (\<open>+\<close>, \<open>-\<close>, \<open><\<close>, \<open>\<ge>\<close>, and \<open>0\<close> as
  the initial value of a field) and assumes no law about them, so that every
  statement holds for floating-point arithmetic as well as for exact arithmetic.
  \<^verbatim>\<open>Point::Length\<close> is the library's \<^verbatim>\<open>sqrt\<close> of the squared length converted to
  \<^verbatim>\<open>float\<close>; it is the parameter \<open>flen\<close>. The infinite length
  (\<^verbatim>\<open>numeric_limits<float>::infinity()\<close>) is \<open>None\<close> in a field of type \<open>'f option\<close>.
\<close>

definition INTERNAL_SCALE :: int where
  "INTERNAL_SCALE = 4"

definition Ring_mul :: "Ring \<Rightarrow> int \<Rightarrow> Ring" where
  "Ring_mul ring s = map (\<lambda>p. Point_mul p s) ring"

definition Polygon_mul :: "Polygon \<Rightarrow> int \<Rightarrow> Polygon" where
  "Polygon_mul poly s = map (\<lambda>ring. Ring_mul ring s) poly"

record 'f Waypoint =
  w_point :: Point
  w_sightlines :: "(nat \<times> 'f) list"
  w_distance :: 'f
  w_visible :: bool
  w_backtrack :: int
  w_shortest :: "'f option"

record 'f Paths =
  passable :: Polygon
  waypoints :: "'f Waypoint list"

definition mkWaypoint :: "Point \<Rightarrow> ('f::zero) Waypoint" where
  "mkWaypoint p = \<lparr>w_point = p, w_sightlines = [], w_distance = 0, w_visible = False,
                    w_backtrack = - 1, w_shortest = Some 0\<rparr>"

definition Distance :: "(int \<Rightarrow> 'f) \<Rightarrow> Point \<Rightarrow> Point \<Rightarrow> 'f" where
  "Distance flen this p = flen (LengthSquared (Point_sub p this))"

text \<open>\<^verbatim>\<open>Paths::Visible\<close>.\<close>

definition Visible :: "Polygon \<Rightarrow> Point \<Rightarrow> Point \<Rightarrow> bool" where
  "Visible P from to =
     (\<not> Intersects P from to \<and> Polygon_Contains P (Point_div (Point_add from to) 2))"

text \<open>\<^verbatim>\<open>Paths::AddWaypoint\<close>: the new waypoint gets the index \<open>endI\<close>; the loop checks
  the sightline to each earlier waypoint and records it at both ends.\<close>

definition AddWaypoint_step ::
  "(int \<Rightarrow> 'f) \<Rightarrow> Polygon \<Rightarrow> Point \<Rightarrow> Point \<Rightarrow> Point \<Rightarrow> nat
     \<Rightarrow> 'f Waypoint list \<Rightarrow> nat \<Rightarrow> 'f Waypoint list" where
  "AddWaypoint_step flen P vertex back forward endI wps i =
     (let angle = Point_sub (w_point (wps ! i)) vertex
      in if (Cross back angle \<le> 0 \<or> Cross angle forward \<le> 0)
            \<and> \<not> Intersects P (w_point (wps ! i)) vertex
         then
           let distance = flen (LengthSquared angle);
               wps1 = wps [i := (wps ! i)\<lparr>w_sightlines := w_sightlines (wps ! i) @ [(endI, distance)]\<rparr>]
           in wps1 [endI := (wps1 ! endI)\<lparr>w_sightlines := w_sightlines (wps1 ! endI) @ [(i, distance)]\<rparr>]
         else wps)"

definition AddWaypoint ::
  "(int \<Rightarrow> 'f) \<Rightarrow> ('f::zero) Paths \<Rightarrow> Point \<Rightarrow> Point \<Rightarrow> Point \<Rightarrow> 'f Paths" where
  "AddWaypoint flen s vertex back forward =
     (let endI = length (waypoints s)
      in s\<lparr>waypoints :=
             foldl (AddWaypoint_step flen (passable s) vertex back forward endI)
               (waypoints s @ [mkWaypoint vertex]) [0 ..< endI]\<rparr>)"

text \<open>The scan of one ring in \<^verbatim>\<open>Paths::Init\<close>: \<open>prev\<close> and \<open>here\<close> are the two
  vertices before \<open>next\<close>, which runs over the ring.\<close>

fun Init_ring ::
  "(int \<Rightarrow> 'f) \<Rightarrow> Point \<Rightarrow> Point \<Rightarrow> Point list \<Rightarrow> ('f::zero) Paths \<Rightarrow> 'f Paths" where
  "Init_ring flen prev here [] s = s"
| "Init_ring flen prev here (next # rest) s =
     (let back = Point_sub prev here;
          forward = Point_sub next here
      in Init_ring flen here next rest
           (if Cross back forward \<ge> 0 then AddWaypoint flen s here back forward else s))"

definition Init_waypoints :: "(int \<Rightarrow> 'f) \<Rightarrow> ('f::zero) Paths \<Rightarrow> 'f Paths" where
  "Init_waypoints flen s =
     foldl (\<lambda>s part. if length part < 3 then s
                      else Init_ring flen (part ! (length part - 2)) (last part) part s)
       s (passable s)"

text \<open>The masks of the room's entries are the parameter \<open>masks\<close> (what
  \<^verbatim>\<open>Room::Entry::Mask\<close> returns for each entry). A failing \<^verbatim>\<open>Add\<close> fails \<^verbatim>\<open>Init\<close>.\<close>

fun Init_add ::
  "(Intersection list \<Rightarrow> Intersection list) \<Rightarrow> Ring list \<Rightarrow> Polygon \<Rightarrow> Polygon option" where
  "Init_add srt [] P = Some P"
| "Init_add srt (ring # rings) P =
     (case Add srt P ring of None \<Rightarrow> None | Some P' \<Rightarrow> Init_add srt rings P')"

definition Init ::
  "(Intersection list \<Rightarrow> Intersection list) \<Rightarrow> (int \<Rightarrow> 'f) \<Rightarrow> Polygon list \<Rightarrow> Point
     \<Rightarrow> ('f::zero) Paths option" where
  "Init srt flen masks point =
     (case Init_add srt
             (concat (map (\<lambda>msk. Polygon_mul msk INTERNAL_SCALE)
                        (filter (\<lambda>msk. msk \<noteq> []) masks))) [] of
        None \<Rightarrow> None
      | Some P \<Rightarrow>
          Some (Init_waypoints flen
                  \<lparr>passable = FloodFill P (Point_mul point INTERNAL_SCALE), waypoints = []\<rparr>))"

text \<open>\<^verbatim>\<open>Paths::ClosestVertex\<close>; the initial best distance is the largest \<^verbatim>\<open>int\<close>.\<close>

definition ClosestVertex :: "Polygon \<Rightarrow> Point \<Rightarrow> Point" where
  "ClosestVertex P target =
     snd (foldl (\<lambda>best point.
                   let distance = DistanceSquared target point
                   in if distance < fst best then (distance, point) else best)
            (2147483647, mkPoint 0 0) (concat P))"

definition CalculateDistances ::
  "(int \<Rightarrow> 'f) \<Rightarrow> Polygon \<Rightarrow> Point \<Rightarrow> 'f Waypoint list \<Rightarrow> 'f Waypoint list" where
  "CalculateDistances flen P target wps =
     map (\<lambda>w. w\<lparr>w_distance := Distance flen target (w_point w),
                 w_visible := Visible P (w_point w) target,
                 w_backtrack := - 1,
                 w_shortest := None\<rparr>) wps"

text \<open>
  A \<^verbatim>\<open>Node\<close> of the search. The queue is a \<^verbatim>\<open>std::priority_queue\<close>, which is not
  part of the repository: it is modelled by the list of its elements and a parameter
  \<open>top\<close> that gives the position of the element \<^verbatim>\<open>top()\<close> returns and
  \<^verbatim>\<open>pop()\<close> removes; \<open>top_ok\<close> is what the C++ standard promises of it.
\<close>

record 'f Node =
  n_length :: 'f
  n_index :: int
  n_previous :: int

definition top_ok :: "(('f::ord) Node list \<Rightarrow> nat) \<Rightarrow> bool" where
  "top_ok pq_top \<longleftrightarrow>
     (\<forall>q. q \<noteq> [] \<longrightarrow> pq_top q < length q \<and> (\<forall>n \<in> set q. \<not> n_length n < n_length (q ! pq_top q)))"

definition Find_seed ::
  "(int \<Rightarrow> 'f) \<Rightarrow> Polygon \<Rightarrow> Point \<Rightarrow> ('f::plus) Node list \<times> 'f Waypoint list \<Rightarrow> nat
     \<Rightarrow> 'f Node list \<times> 'f Waypoint list" where
  "Find_seed flen P from st i =
     (case st of (queue, wps) \<Rightarrow>
        if Visible P from (w_point (wps ! i)) then
          let distance = Distance flen from (w_point (wps ! i))
          in (queue @ [\<lparr>n_length = distance + w_distance (wps ! i), n_index = int i,
                         n_previous = - 1\<rparr>],
              wps [i := (wps ! i)\<lparr>w_backtrack := - 1, w_shortest := Some distance\<rparr>])
        else st)"

text \<open>The state of the search loop: the queue, the waypoints, \<^verbatim>\<open>bestDistance\<close> and
  \<^verbatim>\<open>best\<close>.\<close>

record 'f Find_state =
  fs_queue :: "'f Node list"
  fs_waypoints :: "'f Waypoint list"
  fs_bestDistance :: "'f option"
  fs_best :: "'f Node"

text \<open>
  The result of a search: a value, an error (an index outside the array of waypoints,
  which is undefined behaviour in C++ and a \<^verbatim>\<open>TypeError\<close> in JavaScript), or no
  result within the fuel given to the loops.
\<close>

datatype 'a outcome = Result 'a | Error | OutOfFuel

text \<open>The body of the loop over the sightlines of the waypoint \<open>nodeIndex\<close>.\<close>

fun Find_relax ::
  "int \<Rightarrow> 'f \<Rightarrow> (nat \<times> 'f) list \<Rightarrow> ('f::{plus,ord}) Node list \<Rightarrow> 'f Waypoint list
     \<Rightarrow> ('f Node list \<times> 'f Waypoint list) option" where
  "Find_relax nodeIndex nodeLength [] queue wps = Some (queue, wps)"
| "Find_relax nodeIndex nodeLength (it # its) queue wps =
     (if fst it \<ge> length wps then None
      else
        let next = wps ! fst it;
            len = nodeLength + snd it
        in if (case w_shortest next of None \<Rightarrow> False | Some sh \<Rightarrow> len \<ge> sh)
           then Find_relax nodeIndex nodeLength its queue wps
           else Find_relax nodeIndex nodeLength its
                  (queue @ [\<lparr>n_length = len + w_distance next, n_index = int (fst it),
                              n_previous = nodeIndex\<rparr>])
                  (wps [fst it := next\<lparr>w_shortest := Some len, w_backtrack := nodeIndex\<rparr>]))"

definition Find_continues :: "(('f::ord) Node list \<Rightarrow> nat) \<Rightarrow> 'f Find_state \<Rightarrow> bool" where
  "Find_continues pq_top st =
     (fs_queue st \<noteq> []
      \<and> (case fs_bestDistance st of None \<Rightarrow> True
          | Some b \<Rightarrow> n_length (fs_queue st ! pq_top (fs_queue st)) < b))"

definition Find_step ::
  "(('f::{plus,minus,ord}) Node list \<Rightarrow> nat) \<Rightarrow> 'f Find_state \<Rightarrow> 'f Find_state option" where
  "Find_step pq_top st =
     (let k = pq_top (fs_queue st);
          node = fs_queue st ! k;
          queue = take k (fs_queue st) @ drop (Suc k) (fs_queue st)
      in if n_index node < 0 \<or> n_index node \<ge> int (length (fs_waypoints st)) then None
         else
           let w = fs_waypoints st ! nat (n_index node)
           in if w_visible w then
                Some (st\<lparr>fs_queue := queue, fs_bestDistance := Some (n_length node),
                         fs_best := node\<rparr>)
              else
                case Find_relax (n_index node) (n_length node - w_distance w)
                       (w_sightlines w) queue (fs_waypoints st) of
                  None \<Rightarrow> None
                | Some (queue', wps') \<Rightarrow> Some (st\<lparr>fs_queue := queue', fs_waypoints := wps'\<rparr>))"

text \<open>The \<^verbatim>\<open>while\<close> loop, with fuel.\<close>

fun Find_loop ::
  "(('f::{plus,minus,ord}) Node list \<Rightarrow> nat) \<Rightarrow> nat \<Rightarrow> 'f Find_state
     \<Rightarrow> 'f Find_state outcome" where
  "Find_loop pq_top 0 st = (if Find_continues pq_top st then OutOfFuel else Result st)"
| "Find_loop pq_top (Suc n) st =
     (if Find_continues pq_top st
      then (case Find_step pq_top st of
              None \<Rightarrow> Error
            | Some st' \<Rightarrow> Find_loop pq_top n st')
      else Result st)"

text \<open>The backtracking loop, with fuel.\<close>

fun Find_backtrack ::
  "nat \<Rightarrow> 'f Waypoint list \<Rightarrow> int \<Rightarrow> Point list \<Rightarrow> Point list outcome" where
  "Find_backtrack 0 wps i path = (if i = - 1 then Result path else OutOfFuel)"
| "Find_backtrack (Suc n) wps i path =
     (if i = - 1 then Result path
      else if i < 0 \<or> i \<ge> int (length wps) then Error
      else Find_backtrack n wps (w_backtrack (wps ! nat i))
             (path @ [Point_div (w_point (wps ! nat i)) INTERNAL_SCALE]))"

text \<open>\<^verbatim>\<open>Paths::Find\<close> returns the path; the fields of the waypoints that it writes
  (they are \<^verbatim>\<open>mutable\<close>) are returned with it.\<close>

definition Find ::
  "(('f::{zero,plus,minus,ord}) Node list \<Rightarrow> nat) \<Rightarrow> (int \<Rightarrow> 'f) \<Rightarrow> nat \<Rightarrow> 'f Paths
     \<Rightarrow> Point \<Rightarrow> Point \<Rightarrow> (Point list \<times> 'f Paths) outcome" where
  "Find pq_top flen fuel s from0 to0 =
     (if passable s = [] then Result ([], s)
      else
        let from = Point_mul from0 INTERNAL_SCALE;
            to1 = Point_mul to0 INTERNAL_SCALE;
            to = (if \<not> Polygon_Contains (passable s) to1
                  then ClosestVertex (passable s) to1 else to1)
        in if Visible (passable s) from to then Result ([Point_div to INTERNAL_SCALE], s)
           else
             let wps0 = CalculateDistances flen (passable s) to (waypoints s);
                 seeded = foldl (Find_seed flen (passable s) from) ([], wps0)
                            [0 ..< length wps0]
             in case Find_loop pq_top fuel
                       \<lparr>fs_queue = fst seeded, fs_waypoints = snd seeded,
                        fs_bestDistance = None,
                        fs_best = \<lparr>n_length = 0, n_index = - 1, n_previous = - 1\<rparr>\<rparr> of
                  Error \<Rightarrow> Error
                | OutOfFuel \<Rightarrow> OutOfFuel
                | Result st \<Rightarrow>
                    let s' = s\<lparr>waypoints := fs_waypoints st\<rparr>
                    in if n_index (fs_best st) < 0 then Result ([], s')
                       else case Find_backtrack fuel (fs_waypoints st) (n_index (fs_best st))
                                   [Point_div to INTERNAL_SCALE] of
                              Error \<Rightarrow> Error
                            | OutOfFuel \<Rightarrow> OutOfFuel
                            | Result path \<Rightarrow> Result (path, s'))"

section \<open>Web port: the union of a ring into a polygon\<close>

text \<open>
  \<^verbatim>\<open>Polygon._union\<close>. The order of an intersection along a ring is the index of the
  vertex its edge starts at plus the parameter along the edge, reduced modulo the
  number of vertices (\<^verbatim>\<open>%\<close> on non-negative numbers). The amplified array holds
  three numbers per vertex (link, x, y); it is modelled as a list of triples, and an
  index into it counts triples. A link of -1 is no link.
\<close>

record jintersection =
  j_point :: jpoint
  j_order :: rat
  j_qOrder :: rat
  j_index :: nat
  j_entering :: bool

type_synonym jvertex = "int \<times> rat \<times> rat"

definition jmod :: "rat \<Rightarrow> rat \<Rightarrow> rat" where
  "jmod a m = a - m * of_int \<lfloor>a / m\<rfloor>"

definition union_intersection ::
  "bool \<Rightarrow> nat \<Rightarrow> nat \<Rightarrow> nat \<times> (rat \<times> rat \<times> rat \<times> rat) \<Rightarrow> nat \<times> (rat \<times> rat \<times> rat \<times> rat)
     \<Rightarrow> jintersection list" where
  "union_intersection qIsHole pn qn pe qe =
     (case (pe, qe) of ((pI, (px, py, pdx, pdy)), (qI, (qx, qy, qdx, qdy))) \<Rightarrow>
        let cross = pdx * qdy - pdy * qdx
        in if cross = 0 then []
           else
             let dx = qx - px;
                 dy = qy - py;
                 pC = dx * qdy - dy * qdx;
                 pT = pC / cross
             in if pT < 0 \<or> pT > 1 then []
                else
                  let qC = dx * pdy - dy * pdx;
                      qT = qC / cross
                  in if qT < 0 \<or> qT > 1 then []
                     else [\<lparr>j_point = (px + pdx * pC / cross, py + pdy * pC / cross),
                            j_order = jmod (of_nat pI + pT) (of_nat pn),
                            j_qOrder = jmod (of_nat qI + qT) (of_nat qn),
                            j_index = 0,
                            j_entering = ((cross > 0) \<noteq> qIsHole)\<rparr>])"

definition union_intersections :: "bool \<Rightarrow> jring \<Rightarrow> jring \<Rightarrow> jintersection list" where
  "union_intersections qIsHole part ring =
     concat (map (\<lambda>pe. concat (map (\<lambda>qe.
        union_intersection qIsHole (length part) (length ring) pe qe)
          (zip [0 ..< length ring] ring))) (zip [0 ..< length part] part))"

text \<open>\<^verbatim>\<open>removeDoubles\<close>: the first loop is the one of the desktop port; the second
  drops every intersection whose entering flag equals that of the one kept before
  it (at the start: that of the last one).\<close>

function removeDoubles1 :: "jintersection list \<Rightarrow> jintersection list" where
  "removeDoubles1 [] = []"
| "removeDoubles1 (x # xs) =
     (let run = takeWhile (\<lambda>y. j_order y = j_order x) xs;
          entering = length (filter j_entering (x # run));
          total = 1 + length run
      in (if entering = 0 \<or> entering = total then [x] else [])
         @ removeDoubles1 (dropWhile (\<lambda>y. j_order y = j_order x) xs))"
  by pat_completeness auto
termination
  by (relation "measure length") (auto simp: length_dropWhile_le le_imp_less_Suc)

fun removeDoubles2 :: "bool \<Rightarrow> jintersection list \<Rightarrow> jintersection list" where
  "removeDoubles2 wasEntering [] = []"
| "removeDoubles2 wasEntering (x # xs) =
     (if j_entering x \<noteq> wasEntering then x # removeDoubles2 (\<not> wasEntering) xs
      else removeDoubles2 wasEntering xs)"

definition removeDoubles :: "jintersection list \<Rightarrow> jintersection list" where
  "removeDoubles xs =
     (let ys = removeDoubles1 xs
      in if ys = [] then [] else removeDoubles2 (j_entering (last ys)) ys)"

text \<open>The sort is \<^verbatim>\<open>Array.prototype.sort\<close> with the comparator
  \<^verbatim>\<open>a.order - b.order\<close>, a stable sort; \<open>sort_key\<close> is one.\<close>

definition union_survivors :: "bool \<Rightarrow> jring \<Rightarrow> jring \<Rightarrow> jintersection list" where
  "union_survivors qIsHole part ring =
     removeDoubles (sort_key j_order (union_intersections qIsHole part ring))"

text \<open>
  \<^verbatim>\<open>amplify\<close>. The vertices not yet copied are \<open>vs\<close>, the first of them has the index
  \<open>k\<close>. \<open>amplify_upto\<close> is the inner loop that copies the vertices up to the order of
  an intersection (a vertex at exactly that order is skipped; orders are below the
  number of vertices, so the loop of the source never reads past the last vertex,
  where the model stops); the callback gets the intersection and the state it works
  on together with the amplified list.
\<close>

fun amplify_upto :: "rat \<Rightarrow> nat \<Rightarrow> jring \<Rightarrow> jvertex list \<Rightarrow> nat \<times> jring \<times> jvertex list" where
  "amplify_upto ord k [] amp = (k, [], amp)"
| "amplify_upto ord k ((x, y, dx, dy) # vs) amp =
     (if of_nat k \<le> ord
      then amplify_upto ord (Suc k) vs (if of_nat k \<noteq> ord then amp @ [(- 1, x, y)] else amp)
      else (k, (x, y, dx, dy) # vs, amp))"

fun amplify_loop ::
  "(jintersection \<Rightarrow> 'st \<times> jvertex list \<Rightarrow> 'st \<times> jvertex list) \<Rightarrow> jintersection list
     \<Rightarrow> nat \<Rightarrow> jring \<Rightarrow> 'st \<times> jvertex list \<Rightarrow> jring \<times> 'st \<times> jvertex list" where
  "amplify_loop fn [] k vs sa = (vs, sa)"
| "amplify_loop fn (it # its) k vs sa =
     (case amplify_upto (j_order it) k vs (snd sa) of
        (k', vs', amp') \<Rightarrow> amplify_loop fn its k' vs' (fn it (fst sa, amp')))"

definition amplify ::
  "jring \<Rightarrow> jintersection list \<Rightarrow> (jintersection \<Rightarrow> 'st \<times> jvertex list \<Rightarrow> 'st \<times> jvertex list)
     \<Rightarrow> 'st \<times> jvertex list \<Rightarrow> 'st \<times> jvertex list" where
  "amplify vertices intersections fn sa =
     (let start = length (snd sa)
      in case amplify_loop fn intersections 0 vertices sa of
           (vs, st, amp) \<Rightarrow>
             (st, amp @ map (\<lambda>(x, y, dx, dy). (- 1, x, y)) vs @ [(int start, 0, 0)]))"

definition union_P_callback ::
  "jintersection \<Rightarrow> jintersection list \<times> jvertex list \<Rightarrow> jintersection list \<times> jvertex list" where
  "union_P_callback it sa =
     (case sa of (qIntersections, amp) \<Rightarrow>
        (qIntersections @ [\<lparr>j_point = j_point it, j_order = j_qOrder it, j_qOrder = j_qOrder it,
                             j_index = length amp, j_entering = j_entering it\<rparr>],
         amp @ [(- 1, fst (j_point it), snd (j_point it))]))"

definition union_Q_callback ::
  "jintersection \<Rightarrow> nat list \<times> jvertex list \<Rightarrow> nat list \<times> jvertex list" where
  "union_Q_callback it sa =
     (case sa of (enteringIndices, amp) \<Rightarrow>
        if j_entering it
        then (enteringIndices @ [length amp],
              amp @ [(int (j_index it), fst (j_point it), snd (j_point it))])
        else (enteringIndices,
              (amp [j_index it := (case amp ! j_index it of (l, x, y) \<Rightarrow> (int (length amp), x, y))])
                @ [(- 1, fst (j_point it), snd (j_point it))]))"

record union_state =
  us_result :: "jring list"
  us_qIntersections :: "jintersection list"
  us_amplified :: "jvertex list"
  us_smallestContainer :: "jring option"

definition union_part :: "jring \<Rightarrow> union_state \<Rightarrow> jring \<Rightarrow> union_state" where
  "union_part ring st part =
     (let pIntersections = union_survivors (isHole ring) part ring
      in if pIntersections = [] then
           (if \<not> ringContainsRing ring part then
              st\<lparr>us_result := us_result st @ [part],
                 us_smallestContainer :=
                   (if ringContainsRing part ring
                       \<and> (case us_smallestContainer st of None \<Rightarrow> True
                           | Some c \<Rightarrow> ringContainsRing c part)
                    then Some part else us_smallestContainer st)\<rparr>
            else st)
         else
           case amplify part pIntersections union_P_callback
                  (us_qIntersections st, us_amplified st) of
             (qI, amp) \<Rightarrow> st\<lparr>us_qIntersections := qI, us_amplified := amp\<rparr>)"

text \<open>
  \<^verbatim>\<open>tracePolygon\<close>, with fuel: reading past the end of the array gives
  \<^verbatim>\<open>undefined\<close> in JavaScript and the loop of the source would not end; the
  model stops with \<open>None\<close> there and when the fuel is used up.
\<close>

fun tracePolygon ::
  "nat \<Rightarrow> nat \<Rightarrow> jvertex list \<Rightarrow> nat \<Rightarrow> jpoint list \<Rightarrow> (jpoint list \<times> jvertex list) option" where
  "tracePolygon 0 index amp j out = None"
| "tracePolygon (Suc n) index amp j out =
     (if j \<ge> length amp then None
      else case amp ! j of (link, x, y) \<Rightarrow>
        if link \<ge> 0 then
          (let amp' = amp [j := (- 1, x, y)];
               j' = nat link
           in if j' = index then Some (out, amp') else tracePolygon n index amp' j' out)
        else
          (let out' = out @ [(x, y)];
               j' = j + 1
           in if j' = index then Some (out', amp) else tracePolygon n index amp j' out'))"

fun union_traces ::
  "nat \<Rightarrow> nat list \<Rightarrow> jring list \<Rightarrow> jvertex list \<Rightarrow> jring list option" where
  "union_traces n [] result amp = Some result"
| "union_traces n (index # rest) result amp =
     (if index \<ge> length amp then None
      else if fst (amp ! index) < 0 then union_traces n rest result amp
      else case tracePolygon n index amp index [] of
             None \<Rightarrow> None
           | Some (out, amp') \<Rightarrow>
               union_traces n rest
                 (if length out \<ge> 3 then result @ [expand out] else result) amp')"

definition union_init :: union_state where
  "union_init = \<lparr>us_result = [], us_qIntersections = [], us_amplified = [],
                  us_smallestContainer = None\<rparr>"

definition union_ring :: "nat \<Rightarrow> jring list \<Rightarrow> jring \<Rightarrow> jring list option" where
  "union_ring fuel rings ring =
     (let st = foldl (union_part ring) union_init rings
      in if us_qIntersections st = [] then
           (let containerIsHole =
                  (case us_smallestContainer st of None \<Rightarrow> True | Some c \<Rightarrow> isHole c)
            in Some (if containerIsHole \<noteq> isHole ring
                     then us_result st @ [ring] else us_result st))
         else
           case amplify ring (sort_key j_order (us_qIntersections st)) union_Q_callback
                  ([], us_amplified st) of
             (enteringIndices, amp) \<Rightarrow> union_traces fuel enteringIndices (us_result st) amp)"

text \<open>\<^verbatim>\<open>Polygon.union\<close> adds the rings of another polygon one at a time.\<close>

fun union_polygon :: "nat \<Rightarrow> jring list \<Rightarrow> jring list \<Rightarrow> jring list option" where
  "union_polygon fuel rings [] = Some rings"
| "union_polygon fuel rings (ring # rest) =
     (case union_ring fuel rings ring of
        None \<Rightarrow> None
      | Some rings' \<Rightarrow> union_polygon fuel rings' rest)"

section \<open>Web port: pathfinding\<close>

text \<open>
  Lengths are numbers computed with \<^verbatim>\<open>Math.hypot\<close>, which is the parameter \<open>hyp\<close>;
  their type is left open as in the desktop port. A \<^verbatim>\<open>Waypoint\<close> is constructed
  with its point and an empty list of sightlines; its other fields are declared
  without a value and are written by \<^verbatim>\<open>_calculateDistances\<close> before \<^verbatim>\<open>find\<close> reads
  them. The model gives them placeholder values on construction.
\<close>

record 'f jwaypoint =
  wp_point :: jpoint
  wp_sightlines :: "(nat \<times> 'f) list"
  wp_targetDistance :: 'f
  wp_visible :: bool
  wp_backtrack :: int
  wp_shortest :: "'f option"

record 'f jpaths =
  jp_passable :: "jring list"
  jp_waypoints :: "'f jwaypoint list"

definition mkjwaypoint :: "jpoint \<Rightarrow> ('f::zero) jwaypoint" where
  "mkjwaypoint vertex = \<lparr>wp_point = vertex, wp_sightlines = [], wp_targetDistance = 0,
                          wp_visible = False, wp_backtrack = - 1, wp_shortest = None\<rparr>"

definition distance :: "(rat \<Rightarrow> rat \<Rightarrow> 'f) \<Rightarrow> jpoint \<Rightarrow> jpoint \<Rightarrow> 'f" where
  "distance hyp this point = hyp (fst this - fst point) (snd this - snd point)"

text \<open>The scan of one ring in \<^verbatim>\<open>Paths.init\<close>: \<open>(beforeX, beforeY)\<close> is the vector of
  the edge that ends at the vertex, \<open>(afterX, afterY)\<close> the one that starts there.\<close>

fun init_ring :: "rat \<Rightarrow> rat \<Rightarrow> jring \<Rightarrow> jpoint list" where
  "init_ring beforeX beforeY [] = []"
| "init_ring beforeX beforeY ((x, y, afterX, afterY) # rest) =
     (let cross = beforeX * afterY - beforeY * afterX
      in (if cross \<le> 0 then [(x, y)] else []) @ init_ring afterX afterY rest)"

definition init_waypoints :: "jring list \<Rightarrow> jpoint list" where
  "init_waypoints rings =
     concat (map (\<lambda>part. if length part < 3 then []
                          else case last part of (x, y, dx, dy) \<Rightarrow> init_ring dx dy part) rings)"

text \<open>\<^verbatim>\<open>Paths.init\<close>; \<open>masks\<close> are the masks of the room's sprites, moved to their
  places.\<close>

fun init_union :: "nat \<Rightarrow> jring list list \<Rightarrow> jring list \<Rightarrow> jring list option" where
  "init_union fuel [] rings = Some rings"
| "init_union fuel (msk # masks) rings =
     (if msk = [] then init_union fuel masks rings
      else case union_polygon fuel rings msk of
             None \<Rightarrow> None
           | Some rings' \<Rightarrow> init_union fuel masks rings')"

definition init :: "nat \<Rightarrow> jring list list \<Rightarrow> jpoint \<Rightarrow> ('f::zero) jpaths option" where
  "init fuel masks point =
     (case init_union fuel masks [] of
        None \<Rightarrow> None
      | Some rings \<Rightarrow>
          let passable = floodFill rings point
          in Some \<lparr>jp_passable = passable,
                   jp_waypoints = map mkjwaypoint (init_waypoints passable)\<rparr>)"

text \<open>\<^verbatim>\<open>Heap\<close>, with the comparison \<^verbatim>\<open>(a, b) => a.length < b.length\<close> that
  \<^verbatim>\<open>find\<close> constructs it with. An assignment to the element just past the end of
  a JavaScript array appends it.\<close>

record 'f jnode =
  jn_length :: 'f
  jn_index :: nat
  jn_previous :: "nat option"

definition heap_sort :: "('f::ord) jnode \<Rightarrow> 'f jnode \<Rightarrow> bool" where
  "heap_sort a b = (jn_length a < jn_length b)"

definition set_at :: "'a list \<Rightarrow> nat \<Rightarrow> 'a \<Rightarrow> 'a list" where
  "set_at xs i v = (if i < length xs then xs [i := v] else xs @ [v])"

function heap_insert_loop ::
  "('f::ord) jnode list \<Rightarrow> 'f jnode \<Rightarrow> nat \<Rightarrow> 'f jnode list \<times> nat" where
  "heap_insert_loop elements element index =
     (if index = 0 then (elements, index)
      else
        let parent = (index - 1) div 2
        in if heap_sort (elements ! parent) element then (elements, index)
           else heap_insert_loop (set_at elements index (elements ! parent)) element parent)"
  by pat_completeness auto
termination
  by (relation "measure (\<lambda>(elements, element, index). index)") auto

definition heap_insert :: "('f::ord) jnode list \<Rightarrow> 'f jnode \<Rightarrow> 'f jnode list" where
  "heap_insert elements element =
     (case heap_insert_loop elements element (length elements) of
        (elements', index) \<Rightarrow> set_at elements' index element)"

function heap_pop_loop ::
  "('f::ord) jnode list \<Rightarrow> 'f jnode \<Rightarrow> nat \<Rightarrow> nat \<Rightarrow> 'f jnode list \<times> nat" where
  "heap_pop_loop elements sinker index child =
     (if child < length elements then
        let child' = (if child + 1 < length elements
                         \<and> heap_sort (elements ! (child + 1)) (elements ! child)
                      then child + 1 else child)
        in if heap_sort sinker (elements ! child') then (elements, index)
           else heap_pop_loop (elements [index := elements ! child']) sinker child'
                  (child' * 2 + 1)
      else (elements, index))"
  by pat_completeness auto
termination
  by (relation "measure (\<lambda>(elements, sinker, index, child). length elements - child)") auto

text \<open>\<^verbatim>\<open>pop\<close> is only called on a heap that is not empty.\<close>

definition heap_pop :: "('f::ord) jnode list \<Rightarrow> 'f jnode \<times> 'f jnode list" where
  "heap_pop elements =
     (let top = hd elements;
          sinker = last elements;
          rest = butlast elements
      in if rest = [] then (top, rest)
         else case heap_pop_loop rest sinker 0 1 of
                (elements', index) \<Rightarrow> (top, elements' [index := sinker]))"

text \<open>\<^verbatim>\<open>_findSightlines\<close>, \<^verbatim>\<open>_closestVertex\<close> (\<open>None\<close> is \<^verbatim>\<open>undefined\<close>) and
  \<^verbatim>\<open>_calculateDistances\<close>.\<close>

definition findSightlines ::
  "(rat \<Rightarrow> rat \<Rightarrow> 'f) \<Rightarrow> jring list \<Rightarrow> 'f jwaypoint list \<Rightarrow> nat \<Rightarrow> (nat \<times> 'f) list" where
  "findSightlines hyp rings wps index =
     concat (map (\<lambda>i. if i = index then []
                       else if \<not> intersects rings (wp_point (wps ! index)) (wp_point (wps ! i))
                       then [(i, distance hyp (wp_point (wps ! i)) (wp_point (wps ! index)))]
                       else [])
               [0 ..< length wps])"

definition closestVertex ::
  "(rat \<Rightarrow> rat \<Rightarrow> ('f::ord)) \<Rightarrow> jring list \<Rightarrow> jpoint \<Rightarrow> jpoint option" where
  "closestVertex hyp rings target =
     snd (foldl (\<lambda>best q. case q of (x, y, dx, dy) \<Rightarrow>
                   let d = hyp (fst target - x) (snd target - y)
                   in if (case fst best of None \<Rightarrow> True | Some b \<Rightarrow> d < b)
                      then (Some d, Some (x, y)) else best)
            (None, None) (concat rings))"

definition calculateDistances ::
  "(rat \<Rightarrow> rat \<Rightarrow> 'f) \<Rightarrow> jring list \<Rightarrow> jpoint \<Rightarrow> 'f jwaypoint list \<Rightarrow> 'f jwaypoint list" where
  "calculateDistances hyp rings target wps =
     map (\<lambda>it. it\<lparr>wp_targetDistance := distance hyp target (wp_point it),
                   wp_visible := (\<not> intersects rings target (wp_point it)),
                   wp_backtrack := - 1,
                   wp_shortest := None\<rparr>) wps"

definition find_seed ::
  "(rat \<Rightarrow> rat \<Rightarrow> 'f) \<Rightarrow> jring list \<Rightarrow> jpoint
     \<Rightarrow> ('f::{plus,ord}) jnode list \<times> 'f jwaypoint list \<Rightarrow> nat
     \<Rightarrow> 'f jnode list \<times> 'f jwaypoint list" where
  "find_seed hyp rings from st index =
     (case st of (queue, wps) \<Rightarrow>
        let it = wps ! index
        in if \<not> intersects rings from (wp_point it) then
             let len = distance hyp from (wp_point it)
             in (heap_insert queue \<lparr>jn_length = len + wp_targetDistance it, jn_index = index,
                                    jn_previous = None\<rparr>,
                 wps [index := it\<lparr>wp_backtrack := - 1, wp_shortest := Some len\<rparr>])
           else st)"

text \<open>The loop over the sightlines of the waypoint \<open>nodeIndex\<close>.\<close>

fun find_relax ::
  "nat \<Rightarrow> 'f \<Rightarrow> (nat \<times> 'f) list \<Rightarrow> ('f::{plus,ord}) jnode list \<Rightarrow> 'f jwaypoint list
     \<Rightarrow> ('f jnode list \<times> 'f jwaypoint list) option" where
  "find_relax nodeIndex nodeLength [] queue wps = Some (queue, wps)"
| "find_relax nodeIndex nodeLength (line # lines) queue wps =
     (if fst line \<ge> length wps then None
      else
        let next = wps ! fst line;
            len = nodeLength + snd line
        in if (case wp_shortest next of None \<Rightarrow> False | Some sh \<Rightarrow> len \<ge> sh)
           then find_relax nodeIndex nodeLength lines queue wps
           else find_relax nodeIndex nodeLength lines
                  (heap_insert queue \<lparr>jn_length = len + wp_targetDistance next,
                                       jn_index = fst line, jn_previous = Some nodeIndex\<rparr>)
                  (wps [fst line := next\<lparr>wp_shortest := Some len,
                                          wp_backtrack := int nodeIndex\<rparr>]))"

text \<open>The state of the search loop: the queue, the waypoints, \<^verbatim>\<open>bestDistance\<close> and
  \<^verbatim>\<open>best\<close> (\<open>None\<close> is \<^verbatim>\<open>undefined\<close>). One round of the loop either leaves it
  (\<^verbatim>\<open>break\<close>), or goes on with a new state, or fails.\<close>

record 'f find_state =
  js_queue :: "'f jnode list"
  js_waypoints :: "'f jwaypoint list"
  js_bestDistance :: "'f option"
  js_best :: "'f jnode option"

datatype 'a round = Break 'a | Next 'a | Fail

definition find_step ::
  "(rat \<Rightarrow> rat \<Rightarrow> 'f) \<Rightarrow> jring list \<Rightarrow> ('f::{plus,minus,ord}) find_state
     \<Rightarrow> 'f find_state round" where
  "find_step hyp rings st =
     (case heap_pop (js_queue st) of (node, queue) \<Rightarrow>
        if (case js_bestDistance st of None \<Rightarrow> False | Some b \<Rightarrow> jn_length node \<ge> b)
        then Break (st\<lparr>js_queue := queue\<rparr>)
        else if jn_index node \<ge> length (js_waypoints st) then Fail
        else
          let waypoint = js_waypoints st ! jn_index node
          in if wp_visible waypoint then
               Next (st\<lparr>js_queue := queue, js_bestDistance := Some (jn_length node),
                        js_best := Some node\<rparr>)
             else
               let nodeLength = jn_length node - wp_targetDistance waypoint;
                   lines = (if wp_sightlines waypoint = []
                            then findSightlines hyp rings (js_waypoints st) (jn_index node)
                            else wp_sightlines waypoint);
                   wps1 = (js_waypoints st) [jn_index node := waypoint\<lparr>wp_sightlines := lines\<rparr>]
               in case find_relax (jn_index node) nodeLength lines queue wps1 of
                    None \<Rightarrow> Fail
                  | Some (queue', wps') \<Rightarrow> Next (st\<lparr>js_queue := queue', js_waypoints := wps'\<rparr>))"

fun find_loop ::
  "(rat \<Rightarrow> rat \<Rightarrow> 'f) \<Rightarrow> jring list \<Rightarrow> nat \<Rightarrow> ('f::{plus,minus,ord}) find_state
     \<Rightarrow> 'f find_state outcome" where
  "find_loop hyp rings 0 st = (if js_queue st = [] then Result st else OutOfFuel)"
| "find_loop hyp rings (Suc n) st =
     (if js_queue st = [] then Result st
      else case find_step hyp rings st of
             Break st' \<Rightarrow> Result st'
           | Next st' \<Rightarrow> find_loop hyp rings n st'
           | Fail \<Rightarrow> Error)"

fun find_backtrack ::
  "nat \<Rightarrow> 'f jwaypoint list \<Rightarrow> int \<Rightarrow> jpoint list \<Rightarrow> jpoint list outcome" where
  "find_backtrack 0 wps i path = (if i \<ge> 0 then OutOfFuel else Result path)"
| "find_backtrack (Suc n) wps i path =
     (if i \<ge> 0 then
        (if i \<ge> int (length wps) then Error
         else find_backtrack n wps (wp_backtrack (wps ! nat i))
                (path @ [wp_point (wps ! nat i)]))
      else Result path)"

text \<open>\<^verbatim>\<open>Paths.find\<close> returns the path; the state the call leaves behind is returned
  with it.\<close>

definition find ::
  "(rat \<Rightarrow> rat \<Rightarrow> 'f) \<Rightarrow> nat \<Rightarrow> ('f::{zero,plus,minus,ord}) jpaths \<Rightarrow> jpoint \<Rightarrow> jpoint
     \<Rightarrow> (jpoint list \<times> 'f jpaths) outcome" where
  "find hyp fuel s from to0 =
     (if jp_passable s = [] then Result ([], s)
      else
        case (if \<not> Polygon_contains (jp_passable s) to0
              then closestVertex hyp (jp_passable s) to0 else Some to0) of
          None \<Rightarrow> Error
        | Some to \<Rightarrow>
            if \<not> intersects (jp_passable s) from to then Result ([to], s)
            else
              let wps0 = calculateDistances hyp (jp_passable s) to (jp_waypoints s);
                  seeded = foldl (find_seed hyp (jp_passable s) from) ([], wps0)
                             [0 ..< length wps0]
              in case find_loop hyp (jp_passable s) fuel
                        \<lparr>js_queue = fst seeded, js_waypoints = snd seeded,
                         js_bestDistance = None, js_best = None\<rparr> of
                   Error \<Rightarrow> Error
                 | OutOfFuel \<Rightarrow> OutOfFuel
                 | Result st \<Rightarrow>
                     let s' = s\<lparr>jp_waypoints := js_waypoints st\<rparr>
                     in case js_best st of
                          None \<Rightarrow> Result ([], s')
                        | Some best \<Rightarrow>
                            (case find_backtrack fuel (js_waypoints st) (int (jn_index best)) [to] of
                               Error \<Rightarrow> Error
                             | OutOfFuel \<Rightarrow> OutOfFuel
                             | Result path \<Rightarrow> Result (path, s')))"

section \<open>Notions used in the statements about pathfinding\<close>

text \<open>
  The turn at the vertex \<open>i\<close> of a ring: the cross product of the vector from the
  previous vertex to the vertex \<open>i\<close> with the vector from the vertex \<open>i\<close> to the next
  one (cyclically). \<open>turning\<close> lists the vertices at which the turn is negative or
  zero, in the order in which the positions \<open>ks\<close> name them.
\<close>

definition turn :: "Ring \<Rightarrow> nat \<Rightarrow> int" where
  "turn ring i =
     (let n = length ring;
          p = ring ! (if i = 0 then n - 1 else i - 1);
          h = ring ! i;
          q = ring ! (if i + 1 = n then 0 else i + 1)
      in Cross (Point_sub h p) (Point_sub q h))"

definition turning :: "Ring \<Rightarrow> nat list \<Rightarrow> Point list" where
  "turning ring ks = map (\<lambda>i. ring ! i) (filter (\<lambda>i. turn ring i \<le> 0) ks)"

definition jturn :: "jpoint list \<Rightarrow> nat \<Rightarrow> rat" where
  "jturn vs i =
     (let n = length vs;
          p = vs ! (if i = 0 then n - 1 else i - 1);
          h = vs ! i;
          q = vs ! (if i + 1 = n then 0 else i + 1)
      in (fst h - fst p) * (snd q - snd h) - (snd h - snd p) * (fst q - fst h))"

definition jturning :: "jpoint list \<Rightarrow> nat list \<Rightarrow> jpoint list" where
  "jturning vs ks = map (\<lambda>i. vs ! i) (filter (\<lambda>i. jturn vs i \<le> 0) ks)"

text \<open>
  Auxiliary functions of the proofs: the vertices a scan of a ring records, given the
  two vertices before the first one; the position and the edge vector of a vertex of
  a ring of the web port; the cross product of two vectors.
\<close>

fun turns :: "Point \<Rightarrow> Point \<Rightarrow> Point list \<Rightarrow> Point list" where
  "turns prev here [] = []"
| "turns prev here (next # rest) =
     (if Cross (Point_sub here prev) (Point_sub next here) \<le> 0 then [here] else [])
       @ turns here next rest"

definition quad_pos :: "rat \<times> rat \<times> rat \<times> rat \<Rightarrow> jpoint" where
  "quad_pos q = (case q of (x, y, dx, dy) \<Rightarrow> (x, y))"

definition quad_vec :: "rat \<times> rat \<times> rat \<times> rat \<Rightarrow> jpoint" where
  "quad_vec q = (case q of (x, y, dx, dy) \<Rightarrow> (dx, dy))"

definition jcross :: "jpoint \<Rightarrow> jpoint \<Rightarrow> rat" where
  "jcross a b = fst a * snd b - snd a * fst b"

text \<open>
  The cache of sightlines of the web port is consistent when every waypoint's list is
  either still empty or what \<^verbatim>\<open>_findSightlines\<close> computes for it; \<^verbatim>\<open>init\<close>
  leaves all lists empty. \<open>path_of\<close> is the path of a result, without the state.
  \<open>scratch\<close> forgets the cached sightlines of a waypoint.
\<close>

definition cache_ok :: "(rat \<Rightarrow> rat \<Rightarrow> 'f) \<Rightarrow> jring list \<Rightarrow> 'f jwaypoint list \<Rightarrow> bool" where
  "cache_ok hyp rings wps \<longleftrightarrow>
     (\<forall>i < length wps. wp_sightlines (wps ! i) = []
        \<or> wp_sightlines (wps ! i) = findSightlines hyp rings wps i)"

definition path_of :: "('a \<times> 'b) outcome \<Rightarrow> 'a outcome" where
  "path_of r = (case r of Result (path, s) \<Rightarrow> Result path | Error \<Rightarrow> Error
                | OutOfFuel \<Rightarrow> OutOfFuel)"

definition scratch :: "'f jwaypoint \<Rightarrow> 'f jwaypoint" where
  "scratch w = w\<lparr>wp_sightlines := []\<rparr>"

text \<open>
  Two lists of waypoints are related when they differ in the cached sightlines only
  and both caches are consistent; two states of the search are related when their
  waypoints are and the rest is equal.
\<close>

definition wps_rel ::
  "(rat \<Rightarrow> rat \<Rightarrow> 'f) \<Rightarrow> jring list \<Rightarrow> 'f jwaypoint list \<Rightarrow> 'f jwaypoint list \<Rightarrow> bool" where
  "wps_rel hyp rings a b \<longleftrightarrow>
     map scratch a = map scratch b \<and> cache_ok hyp rings a \<and> cache_ok hyp rings b"

definition state_rel ::
  "(rat \<Rightarrow> rat \<Rightarrow> 'f) \<Rightarrow> jring list \<Rightarrow> 'f find_state \<Rightarrow> 'f find_state \<Rightarrow> bool" where
  "state_rel hyp rings a b \<longleftrightarrow>
     js_queue a = js_queue b \<and> js_bestDistance a = js_bestDistance b \<and> js_best a = js_best b
     \<and> wps_rel hyp rings (js_waypoints a) (js_waypoints b)"

fun round_rel ::
  "(rat \<Rightarrow> rat \<Rightarrow> 'f) \<Rightarrow> jring list \<Rightarrow> 'f find_state round \<Rightarrow> 'f find_state round \<Rightarrow> bool" where
  "round_rel hyp rings (Break a) (Break b) = state_rel hyp rings a b"
| "round_rel hyp rings (Next a) (Next b) = state_rel hyp rings a b"
| "round_rel hyp rings Fail Fail = True"
| "round_rel hyp rings x y = False"

fun outcome_rel ::
  "(rat \<Rightarrow> rat \<Rightarrow> 'f) \<Rightarrow> jring list \<Rightarrow> 'f find_state outcome \<Rightarrow> 'f find_state outcome \<Rightarrow> bool" where
  "outcome_rel hyp rings (Result a) (Result b) = state_rel hyp rings a b"
| "outcome_rel hyp rings Error Error = True"
| "outcome_rel hyp rings OutOfFuel OutOfFuel = True"
| "outcome_rel hyp rings x y = False"

section \<open>Notions used in the statements about searches that find no path\<close>

text \<open>
  The waypoints a search can reach. Web port: a waypoint that the start point sees, or
  one that a reached waypoint sees, where two points see each other when
  \<^verbatim>\<open>intersects\<close> is false for them (the test of \<^verbatim>\<open>find\<close> and of
  \<^verbatim>\<open>_findSightlines\<close>). Desktop port: a waypoint that is \<^verbatim>\<open>Visible\<close> from the start
  point, or one that a sightline of a reached waypoint leads to.
\<close>

inductive reach :: "jring list \<Rightarrow> jpoint \<Rightarrow> jpoint list \<Rightarrow> nat \<Rightarrow> bool"
  for rings :: "jring list" and start :: jpoint and pts :: "jpoint list" where
  reach_seed: "i < length pts \<Longrightarrow> \<not> intersects rings start (pts ! i) \<Longrightarrow> reach rings start pts i"
| reach_step: "reach rings start pts i \<Longrightarrow> j < length pts \<Longrightarrow> j \<noteq> i
     \<Longrightarrow> \<not> intersects rings (pts ! i) (pts ! j) \<Longrightarrow> reach rings start pts j"

inductive Reach :: "Polygon \<Rightarrow> Point \<Rightarrow> 'f Waypoint list \<Rightarrow> nat \<Rightarrow> bool"
  for P :: Polygon and start :: Point and wps :: "'f Waypoint list" where
  Reach_seed: "i < length wps \<Longrightarrow> Visible P start (w_point (wps ! i)) \<Longrightarrow> Reach P start wps i"
| Reach_step: "Reach P start wps i \<Longrightarrow> l \<in> set (w_sightlines (wps ! i))
     \<Longrightarrow> Reach P start wps (fst l)"

text \<open>
  The target of a search: the point asked for, or the closest vertex of the region
  when the region does not contain it. The desktop port works in internal coordinates.
\<close>

definition snap :: "(rat \<Rightarrow> rat \<Rightarrow> ('f::ord)) \<Rightarrow> jring list \<Rightarrow> jpoint \<Rightarrow> jpoint option" where
  "snap hyp rings to =
     (if \<not> Polygon_contains rings to then closestVertex hyp rings to else Some to)"

definition Snap :: "Polygon \<Rightarrow> Point \<Rightarrow> Point" where
  "Snap P to0 =
     (let to1 = Point_mul to0 INTERNAL_SCALE
      in if \<not> Polygon_Contains P to1 then ClosestVertex P to1 else to1)"

text \<open>
  There is no path when the start does not see the target and no waypoint that the
  search can reach sees it.
\<close>

definition no_path :: "jring list \<Rightarrow> jpoint list \<Rightarrow> jpoint \<Rightarrow> jpoint \<Rightarrow> bool" where
  "no_path rings pts start target \<longleftrightarrow>
     intersects rings start target
     \<and> (\<forall>i. reach rings start pts i \<longrightarrow> intersects rings target (pts ! i))"

definition No_path :: "Polygon \<Rightarrow> 'f Waypoint list \<Rightarrow> Point \<Rightarrow> Point \<Rightarrow> bool" where
  "No_path P wps start target \<longleftrightarrow>
     \<not> Visible P start target
     \<and> (\<forall>i. Reach P start wps i \<longrightarrow> \<not> Visible P (w_point (wps ! i)) target)"

text \<open>
  The sightlines of the desktop port are in order when each leads to a waypoint of
  the list; \<^verbatim>\<open>Init\<close> leaves them so.
\<close>

definition sightlines_ok :: "'f Waypoint list \<Rightarrow> bool" where
  "sightlines_ok wps \<longleftrightarrow> (\<forall>w \<in> set wps. \<forall>l \<in> set (w_sightlines w). fst l < length wps)"

text \<open>
  The order of the lengths \<^verbatim>\<open>shortest\<close> takes, infinity (\<open>None\<close>) above all others.
\<close>

definition shorter :: "('f::ord) option \<Rightarrow> 'f option \<Rightarrow> bool" where
  "shorter a b = (case a of None \<Rightarrow> False
                  | Some x \<Rightarrow> (case b of None \<Rightarrow> True | Some y \<Rightarrow> x < y))"

text \<open>
  What the loops of a search keep true. The indices in the queue, the links back and
  the index of the best node are indices of waypoints (or the -1 that ends a chain
  of links). In a search that finds no path, no node is ever the best one, every node
  of the queue is a waypoint the search can reach, and the flag \<^verbatim>\<open>visible\<close> of a
  waypoint says whether the target sees it.
\<close>

definition find_inv :: "'f find_state \<Rightarrow> bool" where
  "find_inv st \<longleftrightarrow>
     (\<forall>x \<in> set (js_queue st). jn_index x < length (js_waypoints st))
     \<and> (\<forall>w \<in> set (js_waypoints st). wp_backtrack w < int (length (js_waypoints st)))
     \<and> (\<forall>b. js_best st = Some b \<longrightarrow> jn_index b < length (js_waypoints st))"

definition find_blind :: "jring list \<Rightarrow> jpoint list \<Rightarrow> jpoint \<Rightarrow> jpoint \<Rightarrow> 'f find_state \<Rightarrow> bool" where
  "find_blind rings pts start target st \<longleftrightarrow>
     js_best st = None \<and> js_bestDistance st = None
     \<and> map wp_point (js_waypoints st) = pts
     \<and> (\<forall>x \<in> set (js_queue st). reach rings start pts (jn_index x))
     \<and> (\<forall>w \<in> set (js_waypoints st).
           wp_visible w = (\<not> intersects rings target (wp_point w)))"

definition Find_inv :: "'f Find_state \<Rightarrow> bool" where
  "Find_inv st \<longleftrightarrow>
     sightlines_ok (fs_waypoints st)
     \<and> (\<forall>x \<in> set (fs_queue st).
           0 \<le> n_index x \<and> n_index x < int (length (fs_waypoints st)))
     \<and> (\<forall>w \<in> set (fs_waypoints st).
           - 1 \<le> w_backtrack w \<and> w_backtrack w < int (length (fs_waypoints st)))
     \<and> - 1 \<le> n_index (fs_best st) \<and> n_index (fs_best st) < int (length (fs_waypoints st))"

definition Find_blind ::
  "Polygon \<Rightarrow> 'f Waypoint list \<Rightarrow> Point \<Rightarrow> Point \<Rightarrow> 'f Find_state \<Rightarrow> bool" where
  "Find_blind P wps0 start target st \<longleftrightarrow>
     n_index (fs_best st) = - 1 \<and> fs_bestDistance st = None
     \<and> map w_point (fs_waypoints st) = map w_point wps0
     \<and> map w_sightlines (fs_waypoints st) = map w_sightlines wps0
     \<and> (\<forall>x \<in> set (fs_queue st). Reach P start wps0 (nat (n_index x)))
     \<and> (\<forall>w \<in> set (fs_waypoints st). w_visible w = Visible P (w_point w) target)"

text \<open>
  A queue discipline that does what the C++ standard promises of
  \<^verbatim>\<open>std::priority_queue\<close> (\<open>top_ok\<close>), for the instances: the top is the first of
  the least elements.
\<close>

definition first_least :: "('f::ord) Node list \<Rightarrow> nat" where
  "first_least q =
     hd (filter (\<lambda>i. \<forall>n \<in> set q. \<not> n_length n < n_length (q ! i)) [0 ..< length q] @ [0])"


section \<open>Area of a ring\<close>

text \<open>
  C3 (amended). For the ring with the vertices (0,0), (10,0), (10,10), (0,10) the area
  is 100 in the given order and -100 in the reversed order, in both ports; the area
  is half the sum over the edges of the cross product of the edge's start and end.
  The claim's value of 50 is not what the code returns.
\<close>

theorem Area_square:
  "Area [mkPoint 0 0, mkPoint 10 0, mkPoint 10 10, mkPoint 0 10] = 100
   \<and> Area (rev [mkPoint 0 0, mkPoint 10 0, mkPoint 10 10, mkPoint 0 10]) = - 100
   \<and> area (expand [(0, 0), (10, 0), (10, 10), (0, 10)]) = 100
   \<and> area (expand (rev [(0, 0), (10, 0), (10, 10), (0, 10)])) = - 100
   \<and> Area ring = of_int (sum_list (map (\<lambda>e. Cross (Start e) (End e)) (edges ring))) / 2"
  by (simp add: Area_def Area2_def edges_def Cross_def mkPoint_def Dot_def Point_sub_def
      area_def expand_def)

text \<open>C3 as stated fails: the area of that ring is neither 50 nor -50.\<close>

theorem Area_square_not_50:
  "Area [mkPoint 0 0, mkPoint 10 0, mkPoint 10 10, mkPoint 0 10] \<noteq> 50
   \<and> Area [mkPoint 0 0, mkPoint 10 0, mkPoint 10 10, mkPoint 0 10] \<noteq> - 50
   \<and> area (expand [(0, 0), (10, 0), (10, 10), (0, 10)]) \<noteq> 50
   \<and> area (expand [(0, 0), (10, 0), (10, 10), (0, 10)]) \<noteq> - 50"
  by (simp add: Area_def Area2_def edges_def Cross_def mkPoint_def Dot_def Point_sub_def
      area_def expand_def)

section \<open>Containment of a point in a ring\<close>

text \<open>
  On the square of the claim the web port's \<open>contains\<close> gives the three values the
  claim lists.
\<close>

lemma contains_square:
  "contains (expand [(0, 0), (10, 0), (10, 10), (0, 10)]) (5, 5)
   \<and> \<not> contains (expand [(0, 0), (10, 0), (10, 10), (0, 10)]) (15, 5)
   \<and> contains (expand [(0, 0), (10, 0), (10, 10), (0, 10)]) (0, 5)"
  by (simp add: contains_def windingNumber_def windingNumber_step_def expand_def)

text \<open>
  C4 (the code at the failing inputs). The apex (5,10) of the triangle (0,0), (10,0),
  (5,10) lies on two of its edges, yet the web port's scan reports winding 0 and
  border 0 for it, so \<open>contains\<close> is false: both edges at the apex end with
  \<open>y \<le> py\<close> at both ends and are skipped. In the desktop port
  \<^verbatim>\<open>Ring::Contains(Point)\<close> looks at the winding number only: for the boundary point
  (0,5) of the square the scan reports winding 0 and border 1, and the result is
  false.
\<close>

theorem contains_misses_apex:
  "on_segment (5, 10) (10, 0) (5, 10)
   \<and> on_segment (5, 10) (5, 10) (0, 0)
   \<and> windingNumber (expand [(0, 0), (10, 0), (5, 10)]) 5 10 = (0, 0)
   \<and> \<not> contains (expand [(0, 0), (10, 0), (5, 10)]) (5, 10)
   \<and> Winding [mkPoint 0 0, mkPoint 10 0, mkPoint 10 10, mkPoint 0 10] (mkPoint 0 5) = (0, 1)
   \<and> \<not> Ring_Contains [mkPoint 0 0, mkPoint 10 0, mkPoint 10 10, mkPoint 0 10] (mkPoint 0 5)"
  by (simp add: on_segment_def contains_def windingNumber_def windingNumber_step_def
      expand_def Ring_Contains_def Winding_def Winding_step_def edges_def Vector_def
      Cross_def mkPoint_def Dot_def Point_sub_def)

theorem contains_misses_apex_witness:
  "\<not> contains (expand [(0, 0), (10, 0), (5, 10)]) (5, 10)
   \<and> \<not> Ring_Contains [mkPoint 0 0, mkPoint 10 0, mkPoint 10 10, mkPoint 0 10] (mkPoint 0 5)"
  using contains_misses_apex by blast

section \<open>Intersection of a segment with the boundary\<close>
















section \<open>Union of a ring that meets no part of the polygon\<close>















section \<open>Flood fill\<close>

text \<open>
  On two disjoint squares, seeded inside one of them, both ports keep that square
  only; without a ring of positive area around the seed the result is empty.
\<close>

lemma FloodFill_two_squares:
  "FloodFill [[mkPoint 0 0, mkPoint 10 0, mkPoint 10 10, mkPoint 0 10],
              [mkPoint 100 100, mkPoint 110 100, mkPoint 110 110, mkPoint 100 110]] (mkPoint 5 5)
     = [[mkPoint 0 0, mkPoint 10 0, mkPoint 10 10, mkPoint 0 10]]
   \<and> floodFill [expand [(0, 0), (10, 0), (10, 10), (0, 10)],
                expand [(100, 100), (110, 100), (110, 110), (100, 110)]] (5, 5)
     = [expand [(0, 0), (10, 0), (10, 10), (0, 10)]]
   \<and> FloodFill [[mkPoint 0 0, mkPoint 10 0, mkPoint 10 10, mkPoint 0 10]] (mkPoint 50 50) = []
   \<and> floodFill [expand [(0, 0), (10, 0), (10, 10), (0, 10)]] (50, 50) = []"
  by code_simp

text \<open>
  C7 (the code at the failing input). The polygon has a solid square (0..100), a hole
  in it (10..90), a solid island in the hole (20..80) and a hole in the island
  (30..40). Seeded at (50,50), inside the island and outside its hole, both ports
  return the island alone: the island's hole is dropped because the outer hole, which
  is not kept, has a smaller area and contains it. With the island and its hole
  alone the hole is kept.
\<close>

theorem FloodFill_drops_hole_of_island:
  "FloodFill [[mkPoint 0 0, mkPoint 100 0, mkPoint 100 100, mkPoint 0 100],
              [mkPoint 10 90, mkPoint 90 90, mkPoint 90 10, mkPoint 10 10],
              [mkPoint 20 20, mkPoint 80 20, mkPoint 80 80, mkPoint 20 80],
              [mkPoint 30 40, mkPoint 40 40, mkPoint 40 30, mkPoint 30 30]] (mkPoint 50 50)
     = [[mkPoint 20 20, mkPoint 80 20, mkPoint 80 80, mkPoint 20 80]]
   \<and> FloodFill [[mkPoint 20 20, mkPoint 80 20, mkPoint 80 80, mkPoint 20 80],
                [mkPoint 30 40, mkPoint 40 40, mkPoint 40 30, mkPoint 30 30]] (mkPoint 50 50)
     = [[mkPoint 20 20, mkPoint 80 20, mkPoint 80 80, mkPoint 20 80],
        [mkPoint 30 40, mkPoint 40 40, mkPoint 40 30, mkPoint 30 30]]
   \<and> floodFill [expand [(0, 0), (100, 0), (100, 100), (0, 100)],
                expand [(10, 90), (90, 90), (90, 10), (10, 10)],
                expand [(20, 20), (80, 20), (80, 80), (20, 80)],
                expand [(30, 40), (40, 40), (40, 30), (30, 30)]] (50, 50)
     = [expand [(20, 20), (80, 20), (80, 80), (20, 80)]]
   \<and> Area [mkPoint 30 40, mkPoint 40 40, mkPoint 40 30, mkPoint 30 30] < 0
   \<and> Ring_Contains_Ring [mkPoint 20 20, mkPoint 80 20, mkPoint 80 80, mkPoint 20 80]
        [mkPoint 30 40, mkPoint 40 40, mkPoint 40 30, mkPoint 30 30]"
  by code_simp

section \<open>The waypoints recorded by the initialisation\<close>

lemma AddWaypoint_step_points:
  assumes "i < length wps" "endI < length wps"
  shows "map w_point (AddWaypoint_step flen P vertex back forward endI wps i) = map w_point wps"
  using assms
  by (auto simp: AddWaypoint_step_def Let_def map_update list_update_same_conv
      intro!: nth_equalityI simp: nth_list_update)

lemma AddWaypoint_fold_points:
  assumes "\<forall>i \<in> set is. i < length wps" "endI < length wps"
  shows "map w_point (foldl (AddWaypoint_step flen P vertex back forward endI) wps is)
           = map w_point wps"
  using assms
proof (induction "is" arbitrary: wps)
  case Nil
  then show ?case by simp
next
  case (Cons i "is")
  let ?w = "AddWaypoint_step flen P vertex back forward endI wps i"
  have p: "map w_point ?w = map w_point wps"
    using Cons.prems by (simp add: AddWaypoint_step_points)
  then have l: "length ?w = length wps" by (metis length_map)
  from Cons.IH [of ?w] Cons.prems l p show ?case by simp
qed

lemma AddWaypoint_points:
  "map w_point (waypoints (AddWaypoint flen s vertex back forward))
     = map w_point (waypoints s) @ [vertex]"
  "passable (AddWaypoint flen s vertex back forward) = passable s"
  by (simp_all add: AddWaypoint_def Let_def AddWaypoint_fold_points mkWaypoint_def)

lemma Cross_neg: "Cross (Point_sub p h) (Point_sub n h) \<ge> 0
    \<longleftrightarrow> Cross (Point_sub h p) (Point_sub n h) \<le> 0"
  by (simp add: Cross_def Point_sub_def mkPoint_def algebra_simps)

lemma Init_ring_points:
  "map w_point (waypoints (Init_ring flen prev here nexts s))
     = map w_point (waypoints s) @ turns prev here nexts
   \<and> passable (Init_ring flen prev here nexts s) = passable s"
proof (induction nexts arbitrary: prev here s)
  case Nil
  then show ?case by simp
next
  case (Cons n nexts)
  show ?case
    by (simp add: Let_def Cons.IH AddWaypoint_points Cross_neg)
qed

lemma turns_index:
  "turns prev here xs =
     map (\<lambda>k. (prev # here # xs) ! (k + 1))
       (filter (\<lambda>k. Cross (Point_sub ((prev # here # xs) ! (k + 1)) ((prev # here # xs) ! k))
                       (Point_sub ((prev # here # xs) ! (k + 2)) ((prev # here # xs) ! (k + 1))) \<le> 0)
          [0 ..< length xs])"
proof (induction xs arbitrary: prev here)
  case Nil
  then show ?case by simp
next
  case (Cons x xs)
  have up: "[0 ..< length (x # xs)] = 0 # map Suc [0 ..< length xs]"
    by (simp add: upt_conv_Cons map_Suc_upt del: upt_Suc)
  show ?case
    unfolding up turns.simps Cons.IH
    by (simp add: filter_map comp_def)
qed

lemma map_filter_cong:
  assumes "\<And>x. x \<in> set xs \<Longrightarrow> f x = f' (g x)" "\<And>x. x \<in> set xs \<Longrightarrow> P x = P' (g x)"
  shows "map f (filter P xs) = map f' (filter P' (map g xs))"
  using assms by (induction xs) auto

lemma upt_rotated:
  assumes "n \<ge> 1"
  shows "map (\<lambda>k. if k = 0 then n - 1 else k - 1) [0 ..< n] = (n - 1) # [0 ..< n - 1]"
proof -
  from assms obtain m where n: "n = Suc m" by (cases n) auto
  have "[0 ..< Suc m] = 0 # map Suc [0 ..< m]"
    by (simp add: upt_conv_Cons map_Suc_upt del: upt_Suc)
  then show ?thesis unfolding n by (simp add: comp_def)
qed

lemma turns_ring:
  assumes "length ring \<ge> 3"
  shows "turns (ring ! (length ring - 2)) (last ring) ring
           = turning ring ((length ring - 1) # [0 ..< length ring - 1])"
proof -
  let ?n = "length ring"
  let ?seq = "ring ! (?n - 2) # last ring # ring"
  let ?g = "\<lambda>k. if k = 0 then ?n - 1 else k - 1"
  have ne: "ring \<noteq> []" using assms by auto
  have la: "last ring = ring ! (?n - 1)" using ne by (simp add: last_conv_nth)
  have here: "?seq ! (k + 1) = ring ! ?g k" if "k < ?n" for k
    using that la by (cases k) auto
  have prev: "?seq ! k = ring ! (if ?g k = 0 then ?n - 1 else ?g k - 1)" if "k < ?n" for k
  proof (cases k)
    case 0
    with assms show ?thesis by (auto simp: numeral_2_eq_2)
  next
    case (Suc j)
    with that la assms show ?thesis by (cases j) (auto simp: numeral_2_eq_2)
  qed
  have next': "?seq ! (k + 2) = ring ! (if ?g k + 1 = ?n then 0 else ?g k + 1)" if "k < ?n" for k
    using that assms by (cases k) auto
  have "turns (ring ! (?n - 2)) (last ring) ring =
      map (\<lambda>k. ?seq ! (k + 1))
       (filter (\<lambda>k. Cross (Point_sub (?seq ! (k + 1)) (?seq ! k))
                       (Point_sub (?seq ! (k + 2)) (?seq ! (k + 1))) \<le> 0)
          [0 ..< ?n])"
    by (rule turns_index)
  also have "\<dots> = map (\<lambda>i. ring ! i) (filter (\<lambda>i. turn ring i \<le> 0) (map ?g [0 ..< ?n]))"
  proof (rule map_filter_cong)
    fix k assume "k \<in> set [0 ..< ?n]"
    then have k: "k < ?n" by simp
    show "?seq ! (k + 1) = ring ! ?g k" using here [OF k] .
    show "(Cross (Point_sub (?seq ! (k + 1)) (?seq ! k))
                       (Point_sub (?seq ! (k + 2)) (?seq ! (k + 1))) \<le> 0)
          = (turn ring (?g k) \<le> 0)"
      unfolding turn_def Let_def here [OF k] prev [OF k] next' [OF k] ..
  qed
  also have "map ?g [0 ..< ?n] = (?n - 1) # [0 ..< ?n - 1]"
    using upt_rotated [of ?n] assms by simp
  finally show ?thesis by (simp add: turning_def)
qed

lemma Init_waypoints_fold:
  "map w_point (waypoints (foldl (\<lambda>s part. if length part < 3 then s
                      else Init_ring flen (part ! (length part - 2)) (last part) part s) s P))
     = map w_point (waypoints s)
       @ concat (map (\<lambda>part. if length part < 3 then []
                              else turning part ((length part - 1) # [0 ..< length part - 1])) P)"
proof (induction P arbitrary: s)
  case Nil
  then show ?case by simp
next
  case (Cons part P)
  show ?case
    by (simp add: Cons.IH Init_ring_points turns_ring not_less)
qed

lemma Init_waypoints_points:
  "map w_point (waypoints (Init_waypoints flen s))
     = map w_point (waypoints s)
       @ concat (map (\<lambda>part. if length part < 3 then []
                              else turning part ((length part - 1) # [0 ..< length part - 1]))
                   (passable s))"
  unfolding Init_waypoints_def by (rule Init_waypoints_fold)


lemma init_ring_index:
  "init_ring bx by ring =
     map (\<lambda>k. quad_pos (ring ! k))
       (filter (\<lambda>k. jcross (((bx, by) # map quad_vec ring) ! k) (quad_vec (ring ! k)) \<le> 0)
          [0 ..< length ring])"
proof (induction ring arbitrary: bx "by")
  case Nil
  then show ?case by simp
next
  case (Cons q ring)
  obtain x y ax ay where q: "q = (x, y, ax, ay)" by (cases q) auto
  have up: "[0 ..< length (q # ring)] = 0 # map Suc [0 ..< length ring]"
    by (simp add: upt_conv_Cons map_Suc_upt del: upt_Suc)
  have "init_ring bx by (q # ring) =
      (if jcross (bx, by) (quad_vec q) \<le> 0 then [quad_pos q] else [])
        @ init_ring (fst (quad_vec q)) (snd (quad_vec q)) ring"
    by (simp add: q jcross_def quad_vec_def quad_pos_def)
  also have "init_ring (fst (quad_vec q)) (snd (quad_vec q)) ring =
     map (\<lambda>k. quad_pos (ring ! k))
       (filter (\<lambda>k. jcross ((quad_vec q # map quad_vec ring) ! k) (quad_vec (ring ! k)) \<le> 0)
          [0 ..< length ring])"
    using Cons.IH [of "fst (quad_vec q)" "snd (quad_vec q)"] by simp
  finally show ?case
    unfolding up by (simp add: filter_map comp_def)
qed

lemma expand_from_nth:
  assumes "k < Suc (length ps)"
  shows "expand_from first p ps ! k =
     (let h = (p # ps) ! k;
          q = (if k = length ps then first else (p # ps) ! (k + 1))
      in (fst h, snd h, fst q - fst h, snd q - snd h))"
  using assms
proof (induction ps arbitrary: p k)
  case Nil
  then show ?case by (cases p) simp
next
  case (Cons a ps)
  obtain sx sy where p: "p = (sx, sy)" by (cases p) auto
  obtain ex ey where a: "a = (ex, ey)" by (cases a) auto
  show ?case
  proof (cases k)
    case 0
    then show ?thesis by (simp add: p a)
  next
    case (Suc j)
    with Cons.prems have "j < Suc (length ps)" by simp
    from Cons.IH [OF this, of a] Suc show ?thesis
      by (simp add: p a Let_def)
  qed
qed

lemma expand_from_length: "length (expand_from first p ps) = Suc (length ps)"
  by (induction ps arbitrary: p) (auto simp: split_paired_all)

lemma expand_length: "length (expand vs) = length vs"
  by (cases vs) (simp_all add: expand_def expand_from_length)

lemma expand_nth:
  assumes "k < length vs"
  shows "expand vs ! k =
     (let h = vs ! k;
          q = vs ! (if k + 1 = length vs then 0 else k + 1)
      in (fst h, snd h, fst q - fst h, snd q - snd h))"
proof (cases vs)
  case Nil
  with assms show ?thesis by simp
next
  case (Cons p ps)
  with assms have "k < Suc (length ps)" by simp
  from expand_from_nth [OF this, of p p] Cons show ?thesis
    by (auto simp: expand_def Let_def)
qed

lemma init_ring_expand:
  assumes "length vs \<ge> 3"
  shows "(case last (expand vs) of (x, y, dx, dy) \<Rightarrow> init_ring dx dy (expand vs))
           = jturning vs [0 ..< length vs]"
proof -
  let ?n = "length vs"
  let ?r = "expand vs"
  have len: "length ?r = ?n" by (rule expand_length)
  have ne: "?r \<noteq> []" using assms len by auto
  have la: "last ?r = ?r ! (?n - 1)" using ne len by (simp add: last_conv_nth)
  obtain lx ly ldx ldy where l: "last ?r = (lx, ly, ldx, ldy)" by (cases "last ?r") auto
  have lv: "(ldx, ldy) = quad_vec (?r ! (?n - 1))" using l la by (simp add: quad_vec_def)
  have bef: "((ldx, ldy) # map quad_vec ?r) ! k = quad_vec (?r ! (if k = 0 then ?n - 1 else k - 1))"
    if "k < ?n" for k
    using that lv len by (cases k) auto
  have "init_ring ldx ldy ?r =
     map (\<lambda>k. quad_pos (?r ! k))
       (filter (\<lambda>k. jcross (((ldx, ldy) # map quad_vec ?r) ! k) (quad_vec (?r ! k)) \<le> 0)
          [0 ..< length ?r])"
    by (rule init_ring_index)
  also have "\<dots> = map (\<lambda>i. vs ! i) (filter (\<lambda>i. jturn vs i \<le> 0) (map (\<lambda>k. k) [0 ..< ?n]))"
    unfolding len
  proof (rule map_filter_cong)
    fix k assume "k \<in> set [0 ..< ?n]"
    then have k: "k < ?n" by simp
    then have k1: "(if k = 0 then ?n - 1 else k - 1) < ?n" by auto
    show "quad_pos (?r ! k) = vs ! k"
      by (simp add: expand_nth [OF k] Let_def quad_pos_def)
    show "(jcross (((ldx, ldy) # map quad_vec ?r) ! k) (quad_vec (?r ! k)) \<le> 0) = (jturn vs k \<le> 0)"
      unfolding bef [OF k] expand_nth [OF k] expand_nth [OF k1]
      using k assms
      by (auto simp: jcross_def quad_vec_def jturn_def Let_def)
  qed
  finally show ?thesis by (simp add: l jturning_def)
qed


lemma init_waypoints_expand:
  "init_waypoints (map expand Vs)
     = concat (map (\<lambda>vs. if length vs < 3 then [] else jturning vs [0 ..< length vs]) Vs)"
proof -
  have "(if length (expand vs) < 3 then []
         else case last (expand vs) of (x, y, dx, dy) \<Rightarrow> init_ring dx dy (expand vs))
        = (if length vs < 3 then [] else jturning vs [0 ..< length vs])" for vs
    using init_ring_expand [of vs] by (simp add: expand_length not_less)
  then show ?thesis
    by (simp add: init_waypoints_def comp_def)
qed

text \<open>
  C6 (amended). The scan of the passable region records, for every ring with at least
  three vertices, exactly the vertices at which the cross product of (vertex minus
  previous vertex) and (next vertex minus vertex) is negative or zero, and nothing
  else; rings with fewer vertices give no waypoint. The desktop port visits the
  vertices of a ring starting with the last one, the web port starting with the
  first.
\<close>

theorem Init_waypoints_turning:
  "map w_point (waypoints (Init_waypoints flen \<lparr>passable = P, waypoints = []\<rparr>))
     = concat (map (\<lambda>part. if length part < 3 then []
                            else turning part ((length part - 1) # [0 ..< length part - 1])) P)
   \<and> init_waypoints (map expand Vs)
     = concat (map (\<lambda>vs. if length vs < 3 then [] else jturning vs [0 ..< length vs]) Vs)"
  using Init_waypoints_points [of flen "\<lparr>passable = P, waypoints = []\<rparr>"]
    init_waypoints_expand [of Vs]
  by simp

text \<open>
  C6 as stated fails where the cross product is zero. The union of the rectangles
  (0,0)-(100,40) and (0,0)-(40,100) is an L-shaped ring with a vertex in the middle of
  its straight left side (at (0,160) in the desktop port's internal scale, at (0,40)
  in the web port). The turn there is 0, not negative, and both ports record the
  vertex as a waypoint.
\<close>

theorem Init_collinear_waypoint:
  "map_option (\<lambda>s. (passable s, map w_point (waypoints s)))
     (Init (sort_key i_order) (of_int :: int \<Rightarrow> rat)
        [[[mkPoint 0 0, mkPoint 100 0, mkPoint 100 40, mkPoint 0 40]],
         [[mkPoint 0 0, mkPoint 40 0, mkPoint 40 100, mkPoint 0 100]]] (mkPoint 10 10))
     = Some ([[mkPoint 0 160, mkPoint 0 0, mkPoint 400 0, mkPoint 400 160,
               mkPoint 160 160, mkPoint 160 400, mkPoint 0 400]],
             [mkPoint 0 160, mkPoint 160 160])
   \<and> turn [mkPoint 0 160, mkPoint 0 0, mkPoint 400 0, mkPoint 400 160,
            mkPoint 160 160, mkPoint 160 400, mkPoint 0 400] 0 = 0
   \<and> map_option (\<lambda>s. (jp_passable s, map wp_point (jp_waypoints s)))
       (init 100 [[expand [(0, 0), (100, 0), (100, 40), (0, 40)]],
                  [expand [(0, 0), (40, 0), (40, 100), (0, 100)]]] (10, 10)
          :: rat jpaths option)
     = Some ([expand [(0, 40), (0, 0), (100, 0), (100, 40), (40, 40), (40, 100), (0, 100)]],
             [(0, 40), (40, 40)])
   \<and> jturn [(0, 40), (0, 0), (100, 0), (100, 40), (40, 40), (40, 100), (0, 100)] 0 = 0"
  by code_simp

section \<open>A direct line from the start to the target\<close>
















section \<open>Repeated searches\<close>

text \<open>
  The web port computes the sightlines of a waypoint when the search first expands it
  and keeps them. Two lists of waypoints are related when they differ in the kept
  sightlines only and each kept list is what \<^verbatim>\<open>_findSightlines\<close> computes; the
  search maps related states to related states, and the path it returns is the same.
  The desktop port computes all sightlines in \<^verbatim>\<open>Init\<close>; its search reads the
  points and the sightlines only, and writes neither.
\<close>

lemma scratch_fields [simp]:
  "wp_point (scratch w) = wp_point w"
  "wp_targetDistance (scratch w) = wp_targetDistance w"
  "wp_visible (scratch w) = wp_visible w"
  "wp_backtrack (scratch w) = wp_backtrack w"
  "wp_shortest (scratch w) = wp_shortest w"
  by (simp_all add: scratch_def)

lemma scratch_eqD:
  assumes "map scratch a = map scratch b"
  shows "length a = length b"
    and "\<And>i. i < length a \<Longrightarrow> scratch (a ! i) = scratch (b ! i)"
    and "map wp_point a = map wp_point b"
proof -
  show l: "length a = length b" using assms by (metis length_map)
  show s: "scratch (a ! i) = scratch (b ! i)" if "i < length a" for i
    using assms that l by (metis nth_map)
  show "map wp_point a = map wp_point b"
  proof (rule nth_equalityI)
    show "length (map wp_point a) = length (map wp_point b)" using l by simp
    fix i assume "i < length (map wp_point a)"
    then have i: "i < length a" by simp
    from s [OF i] have "wp_point (scratch (a ! i)) = wp_point (scratch (b ! i))" by simp
    then show "map wp_point a ! i = map wp_point b ! i" using i l by simp
  qed
qed

lemma scratch_nth_fields:
  assumes "map scratch a = map scratch b" "i < length a"
  shows "wp_point (a ! i) = wp_point (b ! i)"
    "wp_targetDistance (a ! i) = wp_targetDistance (b ! i)"
    "wp_visible (a ! i) = wp_visible (b ! i)"
    "wp_backtrack (a ! i) = wp_backtrack (b ! i)"
    "wp_shortest (a ! i) = wp_shortest (b ! i)"
  using scratch_eqD(2) [OF assms] scratch_fields by metis+

lemma findSightlines_points:
  assumes "map wp_point a = map wp_point b" "index < length a"
  shows "findSightlines hyp rings a index = findSightlines hyp rings b index"
proof -
  have l: "length a = length b" using assms(1) by (metis length_map)
  have p: "wp_point (a ! i) = wp_point (b ! i)" if "i < length a" for i
    using assms(1) that l by (metis nth_map)
  have m: "map (\<lambda>i. if i = index then []
                       else if \<not> intersects rings (wp_point (a ! index)) (wp_point (a ! i))
                       then [(i, distance hyp (wp_point (a ! i)) (wp_point (a ! index)))]
                       else []) [0 ..< length a]
      = map (\<lambda>i. if i = index then []
                       else if \<not> intersects rings (wp_point (b ! index)) (wp_point (b ! i))
                       then [(i, distance hyp (wp_point (b ! i)) (wp_point (b ! index)))]
                       else []) [0 ..< length a]"
    by (rule map_cong) (simp_all add: p assms(2))
  show ?thesis by (simp only: findSightlines_def l [symmetric] m)
qed

lemma findSightlines_links:
  "(i, d) \<in> set (findSightlines hyp rings wps index) \<Longrightarrow>
     i < length wps \<and> i \<noteq> index
     \<and> \<not> intersects rings (wp_point (wps ! index)) (wp_point (wps ! i))"
  by (auto simp: findSightlines_def split: if_splits)

lemma cache_okI:
  assumes "\<And>i. i < length wps \<Longrightarrow> wp_sightlines (wps ! i) = []
      \<or> wp_sightlines (wps ! i) = findSightlines hyp rings wps i"
  shows "cache_ok hyp rings wps"
  using assms by (simp add: cache_ok_def)

lemma cache_okD:
  assumes "cache_ok hyp rings wps" "i < length wps"
  shows "(if wp_sightlines (wps ! i) = [] then findSightlines hyp rings wps i
          else wp_sightlines (wps ! i)) = findSightlines hyp rings wps i"
  using assms by (auto simp: cache_ok_def)

text \<open>updates that leave points and sightlines alone preserve the cache\<close>

lemma cache_ok_update:
  assumes c: "cache_ok hyp rings wps" and i: "i < length wps"
    and p: "wp_point w = wp_point (wps ! i)"
    and s: "wp_sightlines w = wp_sightlines (wps ! i)
            \<or> wp_sightlines w = findSightlines hyp rings wps i"
  shows "cache_ok hyp rings (wps [i := w])"
proof (rule cache_okI)
  fix k assume "k < length (wps [i := w])"
  then have k: "k < length wps" by simp
  have pts: "map wp_point (wps [i := w]) = map wp_point wps"
    using i p by (simp add: map_update list_update_same_conv)
  have f: "findSightlines hyp rings (wps [i := w]) k = findSightlines hyp rings wps k"
    using findSightlines_points [OF pts, of k] k by simp
  show "wp_sightlines (wps [i := w] ! k) = []
      \<or> wp_sightlines (wps [i := w] ! k) = findSightlines hyp rings (wps [i := w]) k"
    unfolding f
    using c k i s by (cases "k = i") (auto simp: cache_ok_def)
qed

lemma scratch_update:
  "scratch (w\<lparr>wp_shortest := x, wp_backtrack := y\<rparr>) = (scratch w)\<lparr>wp_shortest := x, wp_backtrack := y\<rparr>"
  "scratch (w\<lparr>wp_backtrack := y, wp_shortest := x\<rparr>) = (scratch w)\<lparr>wp_backtrack := y, wp_shortest := x\<rparr>"
  "scratch (w\<lparr>wp_sightlines := l\<rparr>) = scratch w"
  by (simp_all add: scratch_def)

lemma wps_relD:
  assumes "wps_rel hyp rings a b"
  shows "map scratch a = map scratch b" "cache_ok hyp rings a" "cache_ok hyp rings b"
    "length a = length b" "map wp_point a = map wp_point b"
  using assms scratch_eqD(1,3) [of a b] by (simp_all add: wps_rel_def)

lemma wps_rel_update:
  assumes r: "wps_rel hyp rings a b" and k: "k < length a"
    and "scratch wa = scratch wb"
    and "wp_point wa = wp_point (a ! k)" "wp_point wb = wp_point (b ! k)"
    and "wp_sightlines wa = wp_sightlines (a ! k) \<or> wp_sightlines wa = findSightlines hyp rings a k"
    and "wp_sightlines wb = wp_sightlines (b ! k) \<or> wp_sightlines wb = findSightlines hyp rings b k"
  shows "wps_rel hyp rings (a [k := wa]) (b [k := wb])"
proof -
  note d = wps_relD [OF r]
  have "map scratch (a [k := wa]) = map scratch (b [k := wb])"
    using d(1) assms(3) by (simp add: map_update)
  moreover have "cache_ok hyp rings (a [k := wa])"
    using cache_ok_update [OF d(2) k assms(4) assms(6)] .
  moreover have "cache_ok hyp rings (b [k := wb])"
    using cache_ok_update [OF d(3) _ assms(5) assms(7)] k d(4) by simp
  ultimately show ?thesis by (simp add: wps_rel_def)
qed

lemma relax_sim:
  assumes "wps_rel hyp rings a b"
  shows "rel_option (\<lambda>x y. fst x = fst y \<and> wps_rel hyp rings (snd x) (snd y))
           (find_relax idx len L q a) (find_relax idx len L q b)"
  using assms
proof (induction L arbitrary: q a b)
  case Nil
  then show ?case by simp
next
  case (Cons line L)
  note d = wps_relD [OF Cons.prems]
  show ?case
  proof (cases "fst line \<ge> length a")
    case True
    with d(4) show ?thesis by simp
  next
    case False
    then have k: "fst line < length a" by simp
    note f = scratch_nth_fields [OF d(1) k]
    let ?wa = "(a ! fst line)\<lparr>wp_shortest := Some (len + snd line), wp_backtrack := int idx\<rparr>"
    let ?wb = "(b ! fst line)\<lparr>wp_shortest := Some (len + snd line), wp_backtrack := int idx\<rparr>"
    have s: "scratch ?wa = scratch ?wb"
      using scratch_eqD(2) [OF d(1) k] by (simp add: scratch_update)
    have r: "wps_rel hyp rings (a [fst line := ?wa]) (b [fst line := ?wb])"
      by (rule wps_rel_update [OF Cons.prems k s]) simp_all
    show ?thesis
      using k d(4) f(2,5) Cons.IH [OF Cons.prems] Cons.IH [OF r]
      by (simp add: Let_def)
  qed
qed

lemma relax_points:
  "find_relax idx len L q wps = Some (q', wps') \<Longrightarrow> map wp_point wps' = map wp_point wps"
proof (induction L arbitrary: q wps)
  case Nil
  then show ?case by simp
next
  case (Cons line L)
  show ?case
  proof (cases "fst line \<ge> length wps")
    case True
    with Cons.prems show ?thesis by simp
  next
    case False
    let ?w = "(wps ! fst line)\<lparr>wp_shortest := Some (len + snd line), wp_backtrack := int idx\<rparr>"
    have p: "map wp_point (wps [fst line := ?w]) = map wp_point wps"
      using False by (simp add: map_update list_update_same_conv)
    from Cons.prems False show ?thesis
      using Cons.IH [of q wps] Cons.IH [of _ "wps [fst line := ?w]"] p
      by (auto simp: Let_def split: if_splits)
  qed
qed

lemma find_step_unfold:
  assumes "heap_pop (js_queue st) = (node, queue)"
  shows "find_step hyp rings st =
    (if (case js_bestDistance st of None \<Rightarrow> False | Some b \<Rightarrow> jn_length node \<ge> b)
     then Break (st\<lparr>js_queue := queue\<rparr>)
     else if jn_index node \<ge> length (js_waypoints st) then Fail
     else if wp_visible (js_waypoints st ! jn_index node) then
            Next (st\<lparr>js_queue := queue, js_bestDistance := Some (jn_length node),
                     js_best := Some node\<rparr>)
     else case find_relax (jn_index node)
                 (jn_length node - wp_targetDistance (js_waypoints st ! jn_index node))
                 (if wp_sightlines (js_waypoints st ! jn_index node) = []
                  then findSightlines hyp rings (js_waypoints st) (jn_index node)
                  else wp_sightlines (js_waypoints st ! jn_index node))
                 queue
                 ((js_waypoints st) [jn_index node := (js_waypoints st ! jn_index node)
                    \<lparr>wp_sightlines :=
                       (if wp_sightlines (js_waypoints st ! jn_index node) = []
                        then findSightlines hyp rings (js_waypoints st) (jn_index node)
                        else wp_sightlines (js_waypoints st ! jn_index node))\<rparr>]) of
            None \<Rightarrow> Fail
          | Some (queue', wps') \<Rightarrow> Next (st\<lparr>js_queue := queue', js_waypoints := wps'\<rparr>))"
  using assms by (simp add: find_step_def Let_def)

lemma step_sim:
  assumes "state_rel hyp rings sa sb"
  shows "round_rel hyp rings (find_step hyp rings sa) (find_step hyp rings sb)"
proof -
  from assms have q: "js_queue a = js_queue a" for a :: "'a find_state" by simp
  from assms have eq: "js_queue sa = js_queue sb" "js_bestDistance sa = js_bestDistance sb"
      "js_best sa = js_best sb"
    and r: "wps_rel hyp rings (js_waypoints sa) (js_waypoints sb)"
    by (simp_all add: state_rel_def)
  note d = wps_relD [OF r]
  obtain node queue where hp: "heap_pop (js_queue sa) = (node, queue)"
    by (cases "heap_pop (js_queue sa)") auto
  then have hpb: "heap_pop (js_queue sb) = (node, queue)" using eq(1) by simp
  let ?a = "js_waypoints sa" and ?b = "js_waypoints sb"
  let ?i = "jn_index node"
  show ?thesis
  proof (cases "case js_bestDistance sa of None \<Rightarrow> False | Some b \<Rightarrow> jn_length node \<ge> b")
    case True
    then show ?thesis
      unfolding find_step_unfold [OF hp] find_step_unfold [OF hpb]
      using eq r by (simp add: state_rel_def)
  next
    case nb: False
    show ?thesis
    proof (cases "?i \<ge> length ?a")
      case True
      then show ?thesis
        unfolding find_step_unfold [OF hp] find_step_unfold [OF hpb]
        using eq nb d(4) by simp
    next
      case False
      then have k: "?i < length ?a" by simp
      note f = scratch_nth_fields [OF d(1) k]
      show ?thesis
      proof (cases "wp_visible (?a ! ?i)")
        case True
        then show ?thesis
          unfolding find_step_unfold [OF hp] find_step_unfold [OF hpb]
          using eq nb d(4) k f(3) r by (simp add: state_rel_def)
      next
        case nv: False
        define L where "L = findSightlines hyp rings ?a ?i"
        have La: "(if wp_sightlines (?a ! ?i) = [] then findSightlines hyp rings ?a ?i
                   else wp_sightlines (?a ! ?i)) = L"
          using cache_okD [OF d(2) k] by (simp add: L_def)
        have kb: "?i < length ?b" using k d(4) by simp
        have Lb: "(if wp_sightlines (?b ! ?i) = [] then findSightlines hyp rings ?b ?i
                   else wp_sightlines (?b ! ?i)) = L"
          using cache_okD [OF d(3) kb] findSightlines_points [OF d(5) k] by (simp add: L_def)
        have LL: "findSightlines hyp rings ?b ?i = L"
          using findSightlines_points [OF d(5) k] by (simp add: L_def)
        have r1: "wps_rel hyp rings (?a [?i := (?a ! ?i)\<lparr>wp_sightlines := L\<rparr>])
                    (?b [?i := (?b ! ?i)\<lparr>wp_sightlines := L\<rparr>])"
          apply (rule wps_rel_update [OF r k])
          using scratch_eqD(2) [OF d(1) k] LL by (simp_all add: scratch_update L_def)
        have rs: "rel_option (\<lambda>x y. fst x = fst y \<and> wps_rel hyp rings (snd x) (snd y))
           (find_relax ?i (jn_length node - wp_targetDistance (?a ! ?i)) L queue
              (?a [?i := (?a ! ?i)\<lparr>wp_sightlines := L\<rparr>]))
           (find_relax ?i (jn_length node - wp_targetDistance (?a ! ?i)) L queue
              (?b [?i := (?b ! ?i)\<lparr>wp_sightlines := L\<rparr>]))"
          by (rule relax_sim [OF r1])
        show ?thesis
          unfolding find_step_unfold [OF hp] find_step_unfold [OF hpb] La Lb
          using eq nb d(4) k nv f(2,3) rs
          by (auto simp: state_rel_def rel_option_iff split: option.splits)
      qed
    qed
  qed
qed

lemma map_update_self: "(map f xs) [i := f (xs ! i)] = map f xs"
  by (cases "i < length xs") (simp_all add: list_update_same_conv list_update_beyond)

lemma step_points:
  assumes "find_step hyp rings st = Next st' \<or> find_step hyp rings st = Break st'"
  shows "map wp_point (js_waypoints st') = map wp_point (js_waypoints st)"
proof -
  obtain node queue where hp: "heap_pop (js_queue st) = (node, queue)"
    by (cases "heap_pop (js_queue st)") auto
  let ?a = "js_waypoints st"
  let ?i = "jn_index node"
  let ?L = "(if wp_sightlines (?a ! ?i) = [] then findSightlines hyp rings ?a ?i
                   else wp_sightlines (?a ! ?i))"
  have p: "map wp_point (?a [?i := (?a ! ?i)\<lparr>wp_sightlines := ?L\<rparr>]) = map wp_point ?a"
    by (simp add: map_update map_update_self)
  show ?thesis
    using assms relax_points [of ?i _ ?L queue "?a [?i := (?a ! ?i)\<lparr>wp_sightlines := ?L\<rparr>]"] p
    unfolding find_step_unfold [OF hp]
    by (auto split: if_splits option.splits)
qed

lemma loop_sim:
  assumes "state_rel hyp rings sa sb"
  shows "outcome_rel hyp rings (find_loop hyp rings n sa) (find_loop hyp rings n sb)"
  using assms
proof (induction n arbitrary: sa sb)
  case 0
  then show ?case by (auto simp: state_rel_def)
next
  case (Suc n)
  from Suc.prems have q: "js_queue sa = js_queue sb" by (simp add: state_rel_def)
  show ?case
  proof (cases "js_queue sa = []")
    case True
    with q Suc.prems show ?thesis by simp
  next
    case False
    from step_sim [OF Suc.prems]
    show ?thesis
      using False q Suc.IH
      by (cases "find_step hyp rings sa"; cases "find_step hyp rings sb") auto
  qed
qed

lemma loop_points:
  "find_loop hyp rings n st = Result st'
     \<Longrightarrow> map wp_point (js_waypoints st') = map wp_point (js_waypoints st)"
proof (induction n arbitrary: st)
  case 0
  then show ?case by (auto split: if_splits)
next
  case (Suc n)
  show ?case
  proof (cases "js_queue st = []")
    case True
    with Suc.prems show ?thesis by simp
  next
    case False
    show ?thesis
    proof (cases "find_step hyp rings st")
      case (Break x)
      with Suc.prems False step_points [of hyp rings st x] show ?thesis by simp
    next
      case (Next x)
      with Suc.prems False step_points [of hyp rings st x] Suc.IH [of x] show ?thesis by simp
    next
      case Fail
      with Suc.prems False show ?thesis by simp
    qed
  qed
qed

lemma cache_ok_cong:
  assumes "cache_ok hyp rings a" "map wp_point b = map wp_point a"
    "map wp_sightlines b = map wp_sightlines a"
  shows "cache_ok hyp rings b"
proof (rule cache_okI)
  fix i assume i: "i < length b"
  have l: "length b = length a" using assms(2) by (metis length_map)
  have s: "wp_sightlines (b ! i) = wp_sightlines (a ! i)"
    using assms(3) i l by (metis nth_map)
  have f: "findSightlines hyp rings b i = findSightlines hyp rings a i"
    using findSightlines_points [OF assms(2) i] .
  show "wp_sightlines (b ! i) = [] \<or> wp_sightlines (b ! i) = findSightlines hyp rings b i"
    unfolding s f using assms(1) i l by (simp add: cache_ok_def)
qed

lemma calc_fields:
  "map wp_point (calculateDistances hyp rings t wps) = map wp_point wps"
  "map wp_sightlines (calculateDistances hyp rings t wps) = map wp_sightlines wps"
  "length (calculateDistances hyp rings t wps) = length wps"
  by (simp_all add: calculateDistances_def comp_def)

lemma calc_scratch:
  assumes "map wp_point a = map wp_point b"
  shows "map scratch (calculateDistances hyp rings t a)
       = map scratch (calculateDistances hyp rings t b)"
proof -
  have e: "scratch (w\<lparr>wp_targetDistance := distance hyp t (wp_point w),
                   wp_visible := (\<not> intersects rings t (wp_point w)),
                   wp_backtrack := - 1,
                   wp_shortest := None\<rparr>)
       = \<lparr>wp_point = wp_point w, wp_sightlines = [],
          wp_targetDistance = distance hyp t (wp_point w),
          wp_visible = (\<not> intersects rings t (wp_point w)),
          wp_backtrack = - 1, wp_shortest = None\<rparr>" for w :: "'a jwaypoint"
    by (cases w) (simp add: scratch_def)
  have h: "map scratch (calculateDistances hyp rings t x)
      = map (\<lambda>p. \<lparr>wp_point = p, wp_sightlines = [],
          wp_targetDistance = distance hyp t p,
          wp_visible = (\<not> intersects rings t p),
          wp_backtrack = - 1, wp_shortest = None\<rparr>) (map wp_point x)" for x :: "'a jwaypoint list"
    by (simp add: calculateDistances_def comp_def e)
  show ?thesis by (simp only: h assms)
qed

lemma calc_rel:
  assumes "map wp_point a = map wp_point b" "cache_ok hyp rings a" "cache_ok hyp rings b"
  shows "wps_rel hyp rings (calculateDistances hyp rings t a) (calculateDistances hyp rings t b)"
  using calc_scratch [OF assms(1)] cache_ok_cong [OF assms(2)] cache_ok_cong [OF assms(3)]
  by (simp add: wps_rel_def calc_fields)

lemma seed_sim:
  assumes r: "wps_rel hyp rings a b" and k: "index < length a"
  shows "fst (find_seed hyp rings from (q, a) index) = fst (find_seed hyp rings from (q, b) index)
    \<and> wps_rel hyp rings (snd (find_seed hyp rings from (q, a) index))
         (snd (find_seed hyp rings from (q, b) index))
    \<and> map wp_point (snd (find_seed hyp rings from (q, a) index)) = map wp_point a"
proof -
  note d = wps_relD [OF r]
  note f = scratch_nth_fields [OF d(1) k]
  let ?len = "distance hyp from (wp_point (a ! index))"
  let ?wa = "(a ! index)\<lparr>wp_backtrack := - 1, wp_shortest := Some ?len\<rparr>"
  let ?wb = "(b ! index)\<lparr>wp_backtrack := - 1, wp_shortest := Some ?len\<rparr>"
  have s: "scratch ?wa = scratch ?wb"
    using scratch_eqD(2) [OF d(1) k] by (simp add: scratch_update)
  have u: "wps_rel hyp rings (a [index := ?wa]) (b [index := ?wb])"
    by (rule wps_rel_update [OF r k s]) simp_all
  have p: "map wp_point (a [index := ?wa]) = map wp_point a"
    by (simp add: map_update map_update_self)
  show ?thesis
    using r u p f(1,2) by (simp add: find_seed_def Let_def)
qed

lemma seeds_sim:
  assumes "wps_rel hyp rings a b" "\<forall>i \<in> set is. i < length a"
  shows "fst (foldl (find_seed hyp rings from) (q, a) is)
           = fst (foldl (find_seed hyp rings from) (q, b) is)
    \<and> wps_rel hyp rings (snd (foldl (find_seed hyp rings from) (q, a) is))
         (snd (foldl (find_seed hyp rings from) (q, b) is))
    \<and> map wp_point (snd (foldl (find_seed hyp rings from) (q, a) is)) = map wp_point a"
  using assms
proof (induction "is" arbitrary: q a b)
  case Nil
  then show ?case by simp
next
  case (Cons i "is")
  from Cons.prems have k: "i < length a" by simp
  note s = seed_sim [OF Cons.prems(1) k, of "from" q]
  obtain qa wa where a: "find_seed hyp rings from (q, a) i = (qa, wa)"
    by (cases "find_seed hyp rings from (q, a) i") auto
  obtain qb wb where b: "find_seed hyp rings from (q, b) i = (qb, wb)"
    by (cases "find_seed hyp rings from (q, b) i") auto
  from s a b have e: "qa = qb" "wps_rel hyp rings wa wb" "map wp_point wa = map wp_point a"
    by simp_all
  then have l: "length wa = length a" by (metis length_map)
  from Cons.IH [OF e(2), of qa] Cons.prems(2) l e
  show ?case by (simp add: a b)
qed

lemma backtrack_sim:
  assumes "map scratch a = map scratch b"
  shows "find_backtrack n a i p = find_backtrack n b i p"
proof (induction n arbitrary: i p)
  case 0
  then show ?case by simp
next
  case (Suc n)
  note l = scratch_eqD(1) [OF assms]
  show ?case
  proof (cases "0 \<le> i \<and> i < int (length a)")
    case True
    then have k: "nat i < length a" by (auto simp: nat_less_iff)
    note f = scratch_nth_fields [OF assms k]
    from True l f(1,4) Suc.IH show ?thesis by simp
  next
    case False
    with l show ?thesis by auto
  qed
qed

lemma find_sim:
  assumes rings: "jp_passable sa = jp_passable sb"
    and pts: "map wp_point (jp_waypoints sa) = map wp_point (jp_waypoints sb)"
    and ca: "cache_ok hyp (jp_passable sa) (jp_waypoints sa)"
    and cb: "cache_ok hyp (jp_passable sb) (jp_waypoints sb)"
  shows "path_of (find hyp n sa from to) = path_of (find hyp n sb from to)"
proof (cases "jp_passable sa = []")
  case True
  with rings show ?thesis by (simp add: find_def path_of_def)
next
  case ne: False
  have rb: "jp_passable sb = jp_passable sa" using rings by simp
  let ?R = "jp_passable sa"
  let ?t = "(if \<not> Polygon_contains ?R to then closestVertex hyp ?R to else Some to)"
  show ?thesis
  proof (cases ?t)
    case None
    with ne show ?thesis by (auto simp: find_def path_of_def rb split: if_splits)
  next
    case (Some t)
    show ?thesis
    proof (cases "intersects ?R from t")
      case False
      with ne Some show ?thesis by (auto simp: find_def path_of_def rb split: if_splits)
    next
      case True
      let ?wa = "calculateDistances hyp ?R t (jp_waypoints sa)"
      let ?wb = "calculateDistances hyp ?R t (jp_waypoints sb)"
      have cb': "cache_ok hyp ?R (jp_waypoints sb)" using cb rings by simp
      have r0: "wps_rel hyp ?R ?wa ?wb" by (rule calc_rel [OF pts ca cb'])
      have lw: "length ?wb = length ?wa" using wps_relD(4) [OF r0] by simp
      let ?sa = "foldl (find_seed hyp ?R from) ([], ?wa) [0 ..< length ?wa]"
      let ?sb = "foldl (find_seed hyp ?R from) ([], ?wb) [0 ..< length ?wb]"
      have "\<forall>i \<in> set [0 ..< length ?wa]. i < length ?wa" by simp
      from seeds_sim [OF r0 this, of "from" "[]"]
      have s: "fst ?sa = fst ?sb" "wps_rel hyp ?R (snd ?sa) (snd ?sb)"
        unfolding lw by simp_all
      let ?ia = "\<lparr>js_queue = fst ?sa, js_waypoints = snd ?sa, js_bestDistance = None, js_best = None\<rparr>"
      let ?ib = "\<lparr>js_queue = fst ?sb, js_waypoints = snd ?sb, js_bestDistance = None, js_best = None\<rparr>"
      have "state_rel hyp ?R ?ia ?ib" using s by (simp add: state_rel_def)
      from loop_sim [OF this, of n]
      have o: "outcome_rel hyp ?R (find_loop hyp ?R n ?ia) (find_loop hyp ?R n ?ib)" .
      have fa: "find hyp n sa from to =
         (case find_loop hyp ?R n ?ia of
                   Error \<Rightarrow> Error
                 | OutOfFuel \<Rightarrow> OutOfFuel
                 | Result st \<Rightarrow>
                     let s' = sa\<lparr>jp_waypoints := js_waypoints st\<rparr>
                     in case js_best st of
                          None \<Rightarrow> Result ([], s')
                        | Some best \<Rightarrow>
                            (case find_backtrack n (js_waypoints st) (int (jn_index best)) [t] of
                               Error \<Rightarrow> Error
                             | OutOfFuel \<Rightarrow> OutOfFuel
                             | Result path \<Rightarrow> Result (path, s')))"
        using ne Some True by (auto simp: find_def Let_def split: if_splits)
      have fb: "find hyp n sb from to =
         (case find_loop hyp ?R n ?ib of
                   Error \<Rightarrow> Error
                 | OutOfFuel \<Rightarrow> OutOfFuel
                 | Result st \<Rightarrow>
                     let s' = sb\<lparr>jp_waypoints := js_waypoints st\<rparr>
                     in case js_best st of
                          None \<Rightarrow> Result ([], s')
                        | Some best \<Rightarrow>
                            (case find_backtrack n (js_waypoints st) (int (jn_index best)) [t] of
                               Error \<Rightarrow> Error
                             | OutOfFuel \<Rightarrow> OutOfFuel
                             | Result path \<Rightarrow> Result (path, s')))"
        using ne Some True by (auto simp: find_def Let_def rb split: if_splits)
      show ?thesis
      proof (cases "find_loop hyp ?R n ?ia")
        case (Result xa)
        with o obtain xb where xb: "find_loop hyp ?R n ?ib = Result xb"
          and sr: "state_rel hyp ?R xa xb"
          by (cases "find_loop hyp ?R n ?ib") auto
        from sr have b: "js_best xa = js_best xb"
          and m: "map scratch (js_waypoints xa) = map scratch (js_waypoints xb)"
          by (simp_all add: state_rel_def wps_rel_def)
        show ?thesis
          unfolding fa fb Result xb
          using b backtrack_sim [OF m, of n]
          by (auto simp: path_of_def Let_def split: option.splits outcome.splits)
      next
        case Error
        with o have "find_loop hyp ?R n ?ib = Error"
          by (cases "find_loop hyp ?R n ?ib") auto
        with Error show ?thesis unfolding fa fb by (simp add: path_of_def)
      next
        case OutOfFuel
        with o have "find_loop hyp ?R n ?ib = OutOfFuel"
          by (cases "find_loop hyp ?R n ?ib") auto
        with OutOfFuel show ?thesis unfolding fa fb by (simp add: path_of_def)
      qed
    qed
  qed
qed

lemma cache_ok_fresh: "cache_ok hyp rings (map mkjwaypoint pts)"
  by (rule cache_okI) (simp add: mkjwaypoint_def)

lemma init_cache_ok:
  "init fuel masks point = Some s \<Longrightarrow> cache_ok hyp (jp_passable s) (jp_waypoints s)"
  by (auto simp: init_def Let_def cache_ok_fresh split: option.splits)

lemma find_preserves:
  assumes c: "cache_ok hyp (jp_passable s) (jp_waypoints s)"
    and f: "find hyp n s from to = Result (path, s')"
  shows "jp_passable s' = jp_passable s
    \<and> map wp_point (jp_waypoints s') = map wp_point (jp_waypoints s)
    \<and> cache_ok hyp (jp_passable s') (jp_waypoints s')"
proof (cases "jp_passable s = []")
  case True
  with f c show ?thesis by (simp add: find_def)
next
  case ne: False
  let ?R = "jp_passable s"
  let ?t = "(if \<not> Polygon_contains ?R to then closestVertex hyp ?R to else Some to)"
  show ?thesis
  proof (cases ?t)
    case None
    with ne f show ?thesis by (auto simp: find_def split: if_splits)
  next
    case (Some t)
    show ?thesis
    proof (cases "intersects ?R from t")
      case False
      with ne Some f c show ?thesis by (auto simp: find_def split: if_splits)
    next
      case True
      let ?wa = "calculateDistances hyp ?R t (jp_waypoints s)"
      have r0: "wps_rel hyp ?R ?wa ?wa" by (rule calc_rel [OF refl c c])
      let ?sa = "foldl (find_seed hyp ?R from) ([], ?wa) [0 ..< length ?wa]"
      have "\<forall>i \<in> set [0 ..< length ?wa]. i < length ?wa" by simp
      from seeds_sim [OF r0 this, of "from" "[]"]
      have s: "wps_rel hyp ?R (snd ?sa) (snd ?sa)" "map wp_point (snd ?sa) = map wp_point ?wa"
        by simp_all
      let ?ia = "\<lparr>js_queue = fst ?sa, js_waypoints = snd ?sa, js_bestDistance = None, js_best = None\<rparr>"
      have "state_rel hyp ?R ?ia ?ia" using s by (simp add: state_rel_def)
      from loop_sim [OF this, of n]
      have o: "outcome_rel hyp ?R (find_loop hyp ?R n ?ia) (find_loop hyp ?R n ?ia)" .
      have fa: "find hyp n s from to =
         (case find_loop hyp ?R n ?ia of
                   Error \<Rightarrow> Error
                 | OutOfFuel \<Rightarrow> OutOfFuel
                 | Result st \<Rightarrow>
                     let s' = s\<lparr>jp_waypoints := js_waypoints st\<rparr>
                     in case js_best st of
                          None \<Rightarrow> Result ([], s')
                        | Some best \<Rightarrow>
                            (case find_backtrack n (js_waypoints st) (int (jn_index best)) [t] of
                               Error \<Rightarrow> Error
                             | OutOfFuel \<Rightarrow> OutOfFuel
                             | Result path \<Rightarrow> Result (path, s')))"
        using ne Some True by (auto simp: find_def Let_def split: if_splits)
      from f obtain x where x: "find_loop hyp ?R n ?ia = Result x"
        and e: "s' = s\<lparr>jp_waypoints := js_waypoints x\<rparr>"
        unfolding fa by (auto simp: Let_def split: outcome.splits option.splits)
      from o x have "state_rel hyp ?R x x" by simp
      then have cx: "cache_ok hyp ?R (js_waypoints x)" by (simp add: state_rel_def wps_rel_def)
      from loop_points [OF x] s(2)
      have "map wp_point (js_waypoints x) = map wp_point (jp_waypoints s)"
        by (simp add: calc_fields)
      with cx e show ?thesis by simp
    qed
  qed
qed

lemma path_of_Result:
  "path_of r = Result p \<longleftrightarrow> (\<exists>s. r = Result (p, s))"
  by (cases r) (auto simp: path_of_def)

lemma find_again:
  assumes c: "cache_ok hyp (jp_passable s) (jp_waypoints s)"
    and f: "find hyp n s from to = Result (path, s')"
  shows "path_of (find hyp m s' from to) = path_of (find hyp m s from to)"
proof -
  note p = find_preserves [OF c f]
  from p have r: "jp_passable s' = jp_passable s" by blast
  from p have w: "map wp_point (jp_waypoints s') = map wp_point (jp_waypoints s)" by blast
  from p have c': "cache_ok hyp (jp_passable s') (jp_waypoints s')" by blast
  show ?thesis by (rule find_sim [OF r w c' c])
qed

lemma CalculateDistances_cong:
  assumes "map w_point a = map w_point b" "map w_sightlines a = map w_sightlines b"
  shows "CalculateDistances flen P t a = CalculateDistances flen P t b"
proof -
  have e: "w\<lparr>w_distance := d, w_visible := v, w_backtrack := k, w_shortest := sh\<rparr>
       = \<lparr>w_point = w_point w, w_sightlines = w_sightlines w, w_distance = d, w_visible = v,
          w_backtrack = k, w_shortest = sh\<rparr>" for w :: "'a Waypoint" and d v k sh
    by (cases w) simp
  have h: "CalculateDistances flen P t x
      = map (\<lambda>(p, l). \<lparr>w_point = p, w_sightlines = l, w_distance = Distance flen t p,
                        w_visible = Visible P p t, w_backtrack = - 1, w_shortest = None\<rparr>)
          (zip (map w_point x) (map w_sightlines x))" for x :: "'a Waypoint list"
    by (simp add: CalculateDistances_def e zip_map_map comp_def zip_same_conv_map)
  show ?thesis by (simp only: h assms)
qed

lemma CalculateDistances_fields:
  "map w_point (CalculateDistances flen P t wps) = map w_point wps"
  "map w_sightlines (CalculateDistances flen P t wps) = map w_sightlines wps"
  by (simp_all add: CalculateDistances_def comp_def)

lemma map_update_same:
  "f v = f (xs ! i) \<Longrightarrow> map f (xs [i := v]) = map f xs"
  by (simp add: map_update map_update_self)

lemma Find_seed_fields:
  "map w_point (snd (Find_seed flen P from (q, wps) i)) = map w_point wps
   \<and> map w_sightlines (snd (Find_seed flen P from (q, wps) i)) = map w_sightlines wps"
  by (simp add: Find_seed_def Let_def map_update_same)

lemma Find_seeds_fields:
  "map w_point (snd (foldl (Find_seed flen P from) (q, wps) is)) = map w_point wps
   \<and> map w_sightlines (snd (foldl (Find_seed flen P from) (q, wps) is)) = map w_sightlines wps"
proof (induction "is" arbitrary: q wps)
  case Nil
  then show ?case by simp
next
  case (Cons i "is")
  obtain q' wps' where e: "Find_seed flen P from (q, wps) i = (q', wps')"
    by (cases "Find_seed flen P from (q, wps) i") auto
  from Find_seed_fields [of flen P "from" q wps i] Cons.IH [of q' wps'] show ?case
    by (simp add: e)
qed

lemma Find_relax_fields:
  "Find_relax k len L q wps = Some (q', wps')
     \<Longrightarrow> map w_point wps' = map w_point wps \<and> map w_sightlines wps' = map w_sightlines wps"
proof (induction L arbitrary: q wps)
  case Nil
  then show ?case by simp
next
  case (Cons it L)
  from Cons.prems Cons.IH show ?case
    by (auto simp: Let_def map_update_same split: if_splits)
qed

lemma Find_step_fields:
  "Find_step pq_top st = Some st'
     \<Longrightarrow> map w_point (fs_waypoints st') = map w_point (fs_waypoints st)
       \<and> map w_sightlines (fs_waypoints st') = map w_sightlines (fs_waypoints st)"
  by (auto simp: Find_step_def Let_def dest: Find_relax_fields split: if_splits option.splits)

lemma Find_loop_fields:
  "Find_loop pq_top n st = Result st'
     \<Longrightarrow> map w_point (fs_waypoints st') = map w_point (fs_waypoints st)
       \<and> map w_sightlines (fs_waypoints st') = map w_sightlines (fs_waypoints st)"
proof (induction n arbitrary: st)
  case 0
  then show ?case by (auto split: if_splits)
next
  case (Suc n)
  show ?case
  proof (cases "Find_continues pq_top st")
    case False
    with Suc.prems show ?thesis by simp
  next
    case True
    with Suc.prems obtain st1 where s: "Find_step pq_top st = Some st1"
      and l: "Find_loop pq_top n st1 = Result st'"
      by (auto split: option.splits)
    from Suc.IH [OF l] Find_step_fields [OF s] show ?thesis by simp
  qed
qed

lemma Find_preserves:
  assumes "Find pq_top flen n s from to = Result (path, s')"
  shows "passable s' = passable s
    \<and> map w_point (waypoints s') = map w_point (waypoints s)
    \<and> map w_sightlines (waypoints s') = map w_sightlines (waypoints s)"
  using assms
  by (auto simp: Find_def Let_def Find_seeds_fields CalculateDistances_fields
           dest!: Find_loop_fields split: if_splits outcome.splits)

lemma Find_cong:
  assumes p: "passable a = passable b"
    and w: "map w_point (waypoints a) = map w_point (waypoints b)"
    and l: "map w_sightlines (waypoints a) = map w_sightlines (waypoints b)"
  shows "path_of (Find pq_top flen n a from to) = path_of (Find pq_top flen n b from to)"
proof -
  have c: "CalculateDistances flen P t (waypoints a) = CalculateDistances flen P t (waypoints b)"
    for P t by (rule CalculateDistances_cong [OF w l])
  have r: "a\<lparr>waypoints := x\<rparr> = b\<lparr>waypoints := x\<rparr>" for x
    using p by (cases a, cases b) simp
  show ?thesis
    by (simp add: Find_def Let_def p c r path_of_def split: outcome.splits)
qed

text \<open>
  C10. A second search with the same arguments returns the same path. Web port: the
  state that \<^verbatim>\<open>init\<close> returns has a consistent cache of sightlines (all are
  empty); if the cache is consistent and \<^verbatim>\<open>find\<close> returns a path, the cache of the
  state it leaves is consistent again, and \<^verbatim>\<open>find\<close> on that state, with the same
  points, returns the same path. Desktop port: if \<^verbatim>\<open>Find\<close> returns a path then
  \<^verbatim>\<open>Find\<close> on the waypoints it leaves returns the same path.
\<close>

theorem Find_twice:
  "(init fuel masks point = Some s0 \<longrightarrow> cache_ok hyp (jp_passable s0) (jp_waypoints s0))
   \<and> (cache_ok hyp (jp_passable s) (jp_waypoints s)
        \<and> find hyp n s jfrom jto = Result (path, s')
      \<longrightarrow> cache_ok hyp (jp_passable s') (jp_waypoints s')
          \<and> (\<exists>s''. find hyp n s' jfrom jto = Result (path, s'')))
   \<and> (Find pq_top flen k d dfrom dto = Result (dpath, d')
      \<longrightarrow> (\<exists>d''. Find pq_top flen k d' dfrom dto = Result (dpath, d'')))"
proof (intro conjI impI)
  assume "init fuel masks point = Some s0"
  then show "cache_ok hyp (jp_passable s0) (jp_waypoints s0)" by (rule init_cache_ok)
next
  assume a: "cache_ok hyp (jp_passable s) (jp_waypoints s)
        \<and> find hyp n s jfrom jto = Result (path, s')"
  then show "cache_ok hyp (jp_passable s') (jp_waypoints s')"
    using find_preserves [of hyp s n jfrom jto path s'] by blast
  from a have "path_of (find hyp n s' jfrom jto) = path_of (find hyp n s jfrom jto)"
    using find_again [of hyp s n jfrom jto path s' n] by blast
  with a have "path_of (find hyp n s' jfrom jto) = Result path" by (simp add: path_of_def)
  then show "\<exists>s''. find hyp n s' jfrom jto = Result (path, s'')" by (simp add: path_of_Result)
next
  assume a: "Find pq_top flen k d dfrom dto = Result (dpath, d')"
  note p = Find_preserves [OF a]
  from p have 1: "passable d' = passable d" by blast
  from p have 2: "map w_point (waypoints d') = map w_point (waypoints d)" by blast
  from p have 3: "map w_sightlines (waypoints d') = map w_sightlines (waypoints d)" by blast
  from Find_cong [OF 1 2 3, of pq_top flen k dfrom dto] a
  have "path_of (Find pq_top flen k d' dfrom dto) = Result dpath" by (simp add: path_of_def)
  then show "\<exists>d''. Find pq_top flen k d' dfrom dto = Result (dpath, d'')"
    by (simp add: path_of_Result)
qed

text \<open>
  An instance: a region in the shape of a C, from the end of its lower arm to the end
  of its upper arm. The search expands the waypoint at (80,20), which the target does
  not see, and in the web port keeps its sightlines. The squared length stands for the
  length, and the queue of the desktop port gives its first least element.
\<close>

theorem Find_twice_witness:
  "init 100 [[expand [(0, 0), (100, 0), (100, 100), (0, 100), (0, 80), (80, 80), (80, 20), (0, 20)]]] (10, 10)
     = Some \<lparr>jp_passable = [expand [(0, 0), (100, 0), (100, 100), (0, 100), (0, 80), (80, 80), (80, 20), (0, 20)]],
        jp_waypoints = [mkjwaypoint (80, 80), mkjwaypoint (80, 20) :: rat jwaypoint]\<rparr>
   \<and> cache_ok (\<lambda>a b. a * a + b * b) [expand [(0, 0), (100, 0), (100, 100), (0, 100), (0, 80), (80, 80), (80, 20), (0, 20)]]
        [mkjwaypoint (80, 80), mkjwaypoint (80, 20) :: rat jwaypoint]
   \<and> (\<exists>s'. find (\<lambda>a b. a * a + b * b) 20
               \<lparr>jp_passable = [expand [(0, 0), (100, 0), (100, 100), (0, 100), (0, 80), (80, 80), (80, 20), (0, 20)]],
        jp_waypoints = [mkjwaypoint (80, 80), mkjwaypoint (80, 20) :: rat jwaypoint]\<rparr>
               (10, 10) (10, 90) = Result ([(10, 90), (80, 80), (80, 20)], s')
          \<and> cache_ok (\<lambda>a b. a * a + b * b) (jp_passable s') (jp_waypoints s')
          \<and> (\<exists>s''. find (\<lambda>a b. a * a + b * b) 20 s' (10, 10) (10, 90)
                    = Result ([(10, 90), (80, 80), (80, 20)], s'')))
   \<and> (\<exists>d'. Find (\<lambda>q. hd (filter (\<lambda>i. \<forall>n \<in> set q. \<not> n_length n < n_length (q ! i)) [0 ..< length q] @ [0]))
               (of_int :: int \<Rightarrow> rat) 20
               (Init_waypoints of_int
        \<lparr>passable = [[mkPoint 0 0, mkPoint 400 0, mkPoint 400 400, mkPoint 0 400,
                       mkPoint 0 320, mkPoint 320 320, mkPoint 320 80, mkPoint 0 80]],
         waypoints = []\<rparr>)
               (mkPoint 10 10) (mkPoint 10 90)
             = Result ([mkPoint 10 90, mkPoint 80 80, mkPoint 80 20], d')
          \<and> (\<exists>d''. Find (\<lambda>q. hd (filter (\<lambda>i. \<forall>n \<in> set q. \<not> n_length n < n_length (q ! i)) [0 ..< length q] @ [0]))
                      (of_int :: int \<Rightarrow> rat) 20 d' (mkPoint 10 10) (mkPoint 10 90)
                    = Result ([mkPoint 10 90, mkPoint 80 80, mkPoint 80 20], d'')))"
proof -
  let ?S = "\<lparr>jp_passable = [expand [(0, 0), (100, 0), (100, 100), (0, 100), (0, 80), (80, 80), (80, 20), (0, 20)]],
        jp_waypoints = [mkjwaypoint (80, 80), mkjwaypoint (80, 20) :: rat jwaypoint]\<rparr>"
  let ?H = "(\<lambda>a b. a * a + b * b) :: rat \<Rightarrow> rat \<Rightarrow> rat"
  let ?T = "(\<lambda>q. hd (filter (\<lambda>i. \<forall>n \<in> set q. \<not> n_length n < n_length (q ! i)) [0 ..< length q] @ [0])) :: rat Node list \<Rightarrow> nat"
  let ?D = "(Init_waypoints of_int
        \<lparr>passable = [[mkPoint 0 0, mkPoint 400 0, mkPoint 400 400, mkPoint 0 400,
                       mkPoint 0 320, mkPoint 320 320, mkPoint 320 80, mkPoint 0 80]],
         waypoints = []\<rparr>) :: rat Paths"
  have i: "init 100 [[expand [(0, 0), (100, 0), (100, 100), (0, 100), (0, 80), (80, 80), (80, 20), (0, 20)]]] (10, 10) = Some ?S"
    by code_simp
  have "path_of (find ?H 20 ?S (10, 10) (10, 90)) = Result [(10, 90), (80, 80), (80, 20)]"
    by code_simp
  then obtain s' where f: "find ?H 20 ?S (10, 10) (10, 90) = Result ([(10, 90), (80, 80), (80, 20)], s')"
    by (auto simp: path_of_Result)
  have "path_of (Find ?T of_int 20 ?D (mkPoint 10 10) (mkPoint 10 90))
          = Result [mkPoint 10 90, mkPoint 80 80, mkPoint 80 20]"
    by code_simp
  then obtain d' where g: "Find ?T of_int 20 ?D (mkPoint 10 10) (mkPoint 10 90)
          = Result ([mkPoint 10 90, mkPoint 80 80, mkPoint 80 20], d')"
    by (auto simp: path_of_Result)
  note t = Find_twice [where fuel = 100 and masks = "[[expand [(0, 0), (100, 0), (100, 100), (0, 100), (0, 80), (80, 80), (80, 20), (0, 20)]]]"
      and point = "(10, 10)" and ?s0.0 = ?S and hyp = ?H and s = ?S and n = 20
      and jfrom = "(10, 10)" and jto = "(10, 90)" and path = "[(10, 90), (80, 80), (80, 20)]" and s' = s'
      and pq_top = ?T and flen = of_int and k = 20 and d = ?D and dfrom = "mkPoint 10 10"
      and dto = "mkPoint 10 90" and dpath = "[mkPoint 10 90, mkPoint 80 80, mkPoint 80 20]" and d' = d']
  from t i have c: "cache_ok ?H (jp_passable ?S) (jp_waypoints ?S)" by blast
  from t c f have 2: "cache_ok ?H (jp_passable s') (jp_waypoints s')
      \<and> (\<exists>s''. find ?H 20 s' (10, 10) (10, 90) = Result ([(10, 90), (80, 80), (80, 20)], s''))"
    by blast
  from t g have 3: "\<exists>d''. Find ?T of_int 20 d' (mkPoint 10 10) (mkPoint 10 90)
      = Result ([mkPoint 10 90, mkPoint 80 80, mkPoint 80 20], d'')"
    by blast
  from c have c': "cache_ok ?H [expand [(0, 0), (100, 0), (100, 100), (0, 100), (0, 80), (80, 80), (80, 20), (0, 20)]]
        [mkjwaypoint (80, 80), mkjwaypoint (80, 20) :: rat jwaypoint]" by simp
  from i c' f 2 g 3 show ?thesis by blast
qed

end
